theory Spec2Isabelle
  imports Complex_Main
begin

section \<open>The slider interaction controller\<close>

text \<open>
  A shallow embedding of the hook \<open>useSliderControls\<close> of
  \<open>packages/form/src/slider/useSliderControls.ts\<close> and of its variant in
  \<open>unnamed/part_003\<close>. JavaScript numbers are read as exact reals: the rounding of
  IEEE doubles, \<open>NaN\<close> and the infinities are outside this development.
\<close>

subsection \<open>Data model\<close>

text \<open>\<open>ThumbIndex = 0 | 1\<close>, \<open>SliderThumbIndex = ThumbIndex | null\<close>,
  \<open>SliderDraggingBy = "mouse" | "touch" | null\<close>.\<close>

datatype ThumbIndex = Thumb0 | Thumb1

type_synonym SliderThumbIndex = "ThumbIndex option"

datatype DraggingBy = Mouse | Touch

type_synonym SliderDraggingBy = "DraggingBy option"

text \<open>The value of the value model: a number, or a pair of numbers for a range slider.\<close>

datatype SliderValue = SingleValue real | RangeValue real real

text \<open>Modelled from the spec: \<open>isRangeSlider\<close> of \<open>./utils\<close>, which is not among the
  sources. Section 9: the variant is dispatched on the shape of the value, a single number
  or a pair.\<close>

fun isRangeSlider :: "SliderValue \<Rightarrow> bool" where
  "isRangeSlider (RangeValue _ _) = True"
| "isRangeSlider (SingleValue _) = False"

text \<open>What \<open>getBoundingClientRect()\<close> returns, and an element: its identity and its
  current bounding rectangle.\<close>

datatype DOMRect = DOMRect (rect_x: real) (rect_y: real) (rect_left: real) (rect_top: real)
  (rect_width: real) (rect_height: real)

record HTMLSpanElement =
  node :: nat
  getBoundingClientRect :: DOMRect

text \<open>The three refs of the hook: \<open>trackRef\<close>, \<open>thumb1Ref\<close>, \<open>thumb2Ref\<close>
  (\<open>None\<close> is \<open>null\<close>).\<close>

record SliderRefs =
  trackRef :: "HTMLSpanElement option"
  thumb1Ref :: "HTMLSpanElement option"
  thumb2Ref :: "HTMLSpanElement option"

text \<open>Events. A \<open>SliderDragEvent\<close> is a mouse event (with its button and client
  coordinates) or a touch event (with the client coordinates of its changed touches);
  \<open>OtherEvent\<close> stands for any event that is neither, which the handler tests for at run
  time. A keyboard event has its key, the element its handler is attached to, and the
  result of \<open>event.target.closest('[role="slider"]')\<close>.\<close>

record Modifiers =
  altKey :: bool
  ctrlKey :: bool
  metaKey :: bool
  shiftKey :: bool

datatype Pointer =
    MouseEvent (button: int) real real
  | TouchEvent (changedTouches: "(real \<times> real) list")
  | OtherEvent

record SliderDragEvent = Modifiers +
  pointer :: Pointer

record KeyboardEvent = Modifiers +
  key :: string
  currentTarget :: HTMLSpanElement
  closestSlider :: "HTMLSpanElement option"

text \<open>Modelled from the spec: \<open>isMouseEvent\<close> of \<open>./utils\<close>, which is not among the
  sources. Section 4.1 tells a mouse event from a touch event and from an event that is
  neither; the type guard is the test for the first.\<close>

fun isMouseEvent :: "SliderDragEvent \<Rightarrow> bool" where
  "isMouseEvent e = (case pointer e of MouseEvent _ _ _ \<Rightarrow> True | _ \<Rightarrow> False)"

text \<open>Modelled from the spec: \<open>isTouchEvent\<close> of \<open>./utils\<close>, which is not among the
  sources; the test for a touch event, as above.\<close>

fun isTouchEvent :: "SliderDragEvent \<Rightarrow> bool" where
  "isTouchEvent e = (case pointer e of TouchEvent _ \<Rightarrow> True | _ \<Rightarrow> False)"

text \<open>The values a handler closes over: \<open>min\<close>, \<open>max\<close>, \<open>step\<close>, \<open>vertical\<close>,
  \<open>isRtl\<close> and \<open>disabled\<close>. The first five are also fields of the argument of
  \<open>getDragValue\<close>.\<close>

record SliderGeometry =
  min_v :: real
  max_v :: real
  step :: real
  vertical :: bool
  isRtl :: bool

record SliderProps = SliderGeometry +
  disabled :: bool

record SliderDragValues = SliderGeometry +
  clientX :: real
  clientY :: real
  left :: real
  top_v :: real
  height :: real
  width :: real
  minValue :: real
  maxValue :: real

text \<open>The three state cells of the hook, and the value held by the value model
  (\<open>controls.value\<close>), which \<open>controls.setValue\<close> replaces.\<close>

record SliderState =
  dragging :: bool
  draggingIndex :: SliderThumbIndex
  draggingBy :: SliderDraggingBy
  controls_value :: SliderValue

text \<open>What a handler does besides updating state, in the order it does it.\<close>

datatype StepOp = Increment | IncrementJump | Decrement | DecrementJump | Minimum | Maximum

datatype Effect =
    PreventDefault
  | StopPropagation
  | Focus nat
  | SetValue SliderValue
  | CallerOnKeyDown KeyboardEvent
  | CallerOnMouseDown SliderDragEvent
  | CallerOnTouchStart SliderDragEvent
  | Step StepOp "ThumbIndex option"

datatype error = TypeError

subsection \<open>The geometry resolver\<close>

text \<open>\<open>Math.max(lo, Math.min(hi, v))\<close>.\<close>

definition clamp :: "real \<Rightarrow> real \<Rightarrow> real \<Rightarrow> real" where
  "clamp lo hi v = max lo (min hi v)"

text \<open>Modelled from the spec: the first steps of \<open>getDragValue\<close> of \<open>./utils\<close>, which is
  not among the sources. Section 4.2: project the pointer onto the track's axis
  (\<open>clientX - left\<close> over \<open>width\<close>, flipped when \<open>isRtl\<close>; \<open>clientY - top\<close> over
  \<open>height\<close>, inverted), clamp the fraction to \<open>[0, 1]\<close>, map it linearly into
  \<open>[min, max]\<close>, and snap it to the nearest multiple of \<open>step\<close> relative to \<open>min\<close>
  (round half up).\<close>

definition snappedValue :: "SliderDragValues \<Rightarrow> real" where
  "snappedValue opts =
     (let fraction =
            (if vertical opts then 1 - (clientY opts - top_v opts) / height opts
             else if isRtl opts then 1 - (clientX opts - left opts) / width opts
             else (clientX opts - left opts) / width opts);
          clamped = clamp 0 1 fraction;
          mapped = min_v opts + clamped * (max_v opts - min_v opts)
      in min_v opts + of_int \<lfloor>(mapped - min_v opts) / step opts + 1 / 2\<rfloor> * step opts)"

text \<open>Modelled from the spec: \<open>getDragValue\<close> of \<open>./utils\<close>, which is not among the
  sources. Section 4.2: the snapped value, clamped again to the permitted sub-range
  \<open>[minValue, maxValue]\<close> of the thumb being moved.\<close>

definition getDragValue :: "SliderDragValues \<Rightarrow> real" where
  "getDragValue opts = clamp (minValue opts) (maxValue opts) (snappedValue opts)"

subsection \<open>The drag handler\<close>

text \<open>Lines 131-141 of \<open>drag\<close>: the events it returns on at once.\<close>

definition rejects :: "SliderProps \<Rightarrow> SliderRefs \<Rightarrow> SliderDragEvent \<Rightarrow> bool" where
  "rejects p refs event \<longleftrightarrow>
     altKey event \<or> ctrlKey event \<or> metaKey event \<or> shiftKey event \<or> disabled p
     \<or> trackRef refs = None \<or> thumb1Ref refs = None
     \<or> (isMouseEvent event \<and> button (pointer event) \<noteq> 0)
     \<or> (\<not> isMouseEvent event \<and> \<not> isTouchEvent event)"

text \<open>Lines 155-162: the pointer position, the event's own for a mouse event and that of
  \<open>changedTouches[0]\<close> otherwise. With no changed touch the destructuring of
  \<open>undefined\<close> throws.\<close>

definition clientPoint :: "SliderDragEvent \<Rightarrow> error + (real \<times> real)" where
  "clientPoint event =
     (case pointer event of
        MouseEvent _ x y \<Rightarrow> Inr (x, y)
      | TouchEvent ts \<Rightarrow> (case ts of [] \<Rightarrow> Inl TypeError | touch # _ \<Rightarrow> Inr touch)
      | OtherEvent \<Rightarrow> Inl TypeError)"

text \<open>Lines 164-184: the thumb the event is for. \<open>di\<close> is the \<open>draggingIndex\<close> the
  handler closed over.\<close>

definition drag_index ::
  "bool \<Rightarrow> SliderThumbIndex \<Rightarrow> HTMLSpanElement \<Rightarrow> HTMLSpanElement option \<Rightarrow> real \<Rightarrow> real
    \<Rightarrow> ThumbIndex" where
  "drag_index vert di slider1 slider2 cx cy =
     (case slider2 of
        None \<Rightarrow> Thumb0
      | Some s2 \<Rightarrow>
          (case di of
             None \<Rightarrow>
               (let x1 = rect_x (getBoundingClientRect slider1);
                    x2 = rect_x (getBoundingClientRect s2);
                    y1 = rect_y (getBoundingClientRect slider1);
                    y2 = rect_y (getBoundingClientRect s2)
                in if vert then (if \<bar>cy - y1\<bar> < \<bar>cy - y2\<bar> then Thumb0 else Thumb1)
                   else (if \<bar>cx - x1\<bar> < \<bar>cx - x2\<bar> then Thumb0 else Thumb1))
           | Some i \<Rightarrow> i))"

definition drag_slider ::
  "ThumbIndex \<Rightarrow> HTMLSpanElement \<Rightarrow> HTMLSpanElement option \<Rightarrow> HTMLSpanElement" where
  "drag_slider index slider1 slider2 =
     (case slider2 of
        None \<Rightarrow> slider1
      | Some s2 \<Rightarrow> (if index = Thumb0 then slider1 else s2))"

text \<open>Lines 195-210: the options handed to \<open>getDragValue\<close>.\<close>

definition drag_options ::
  "SliderProps \<Rightarrow> HTMLSpanElement \<Rightarrow> real \<Rightarrow> real \<Rightarrow> SliderDragValues" where
  "drag_options p track cx cy =
     (let r = getBoundingClientRect track
      in \<lparr>min_v = min_v p, max_v = max_v p, step = step p, vertical = vertical p,
          isRtl = isRtl p, clientX = cx, clientY = cy, left = rect_left r,
          top_v = rect_top r, height = rect_height r, width = rect_width r,
          minValue = min_v p, maxValue = max_v p\<rparr>)"

text \<open>Lines 212-225: the value handed to \<open>setValue\<close>; for a range slider the updater,
  applied to the pair the value model holds.\<close>

definition drag_value ::
  "SliderProps \<Rightarrow> SliderDragValues \<Rightarrow> ThumbIndex \<Rightarrow> SliderValue \<Rightarrow> SliderValue" where
  "drag_value p options index v =
     (case v of
        RangeValue thumb1Value thumb2Value \<Rightarrow>
          (let val = getDragValue
                 (options\<lparr>minValue := (if index = Thumb0 then min_v p else thumb1Value),
                          maxValue := (if index = Thumb1 then max_v p else thumb2Value)\<rparr>)
           in if index = Thumb0 then RangeValue val thumb2Value else RangeValue thumb1Value val)
      | SingleValue _ \<Rightarrow> SingleValue (getDragValue options))"

text \<open>\<open>drag\<close>, lines 125-228. \<open>p\<close> and \<open>di\<close> are the values the callback closed over (its
  dependency list), \<open>refs\<close> the refs when it runs, \<open>s\<close> the state it updates. The result
  is the new state and the effects, or the exception thrown.\<close>

definition drag ::
  "SliderProps \<Rightarrow> SliderThumbIndex \<Rightarrow> SliderRefs \<Rightarrow> SliderDragEvent \<Rightarrow> SliderState
    \<Rightarrow> error + (SliderState \<times> Effect list)" where
  "drag p di refs event s =
     (if rejects p refs event then Inr (s, [])
      else
        (case trackRef refs of
           None \<Rightarrow> Inr (s, [])
         | Some track \<Rightarrow>
             (case thumb1Ref refs of
                None \<Rightarrow> Inr (s, [])
              | Some slider1 \<Rightarrow>
                  (case clientPoint event of
                     Inl e \<Rightarrow> Inl e
                   | Inr (cx, cy) \<Rightarrow>
                       (let slider2 = thumb2Ref refs;
                            index = drag_index (vertical p) di slider1 slider2 cx cy;
                            slider = drag_slider index slider1 slider2;
                            newValue = drag_value p (drag_options p track cx cy) index
                              (controls_value s)
                        in Inr
                          (s\<lparr>draggingIndex :=
                               (if di \<noteq> Some index then Some index else draggingIndex s),
                             draggingBy := Some (if isMouseEvent event then Mouse else Touch),
                             controls_value := newValue\<rparr>,
                           (if isTouchEvent event then [] else [PreventDefault])
                           @ [StopPropagation]
                           @ (if di \<noteq> Some index then [Focus (node slider)] else [])
                           @ [SetValue newValue]))))))"

subsection \<open>The keyboard handler\<close>

definition VALID_KEYS :: "string list" where
  "VALID_KEYS =
     [''ArrowDown'', ''ArrowUp'', ''ArrowLeft'', ''ArrowRight'', ''Home'', ''End'', ''PageUp'',
      ''PageDown'']"

text \<open>\<open>a === b\<close> on element references: the same node, or both \<open>null\<close>.\<close>

definition same_node :: "HTMLSpanElement option \<Rightarrow> HTMLSpanElement option \<Rightarrow> bool" where
  "same_node a b \<longleftrightarrow> map_option node a = map_option node b"

text \<open>\<open>handleKeyDown\<close>, lines 319-394. \<open>onKeyDown\<close> tells whether the caller supplied a
  handler, \<open>dis\<close> is the \<open>disabled\<close> the callback closed over, \<open>controls\<close> the value of
  \<open>controlsRef.current\<close>. A stepping function of a range slider is called with the thumb
  index bound, that of a single-value slider with no argument.\<close>

definition handleKeyDown ::
  "bool \<Rightarrow> bool \<Rightarrow> SliderRefs \<Rightarrow> SliderValue \<Rightarrow> KeyboardEvent \<Rightarrow> Effect list" where
  "handleKeyDown onKeyDown dis refs controls event =
     (if onKeyDown then [CallerOnKeyDown event] else [])
     @ (if altKey event \<or> ctrlKey event \<or> metaKey event \<or> shiftKey event \<or> dis
           \<or> key event \<notin> set VALID_KEYS
        then []
        else
          (let index =
                 (if isRangeSlider controls
                  then Some (if same_node (Some (currentTarget event)) (thumb2Ref refs)
                             then Thumb1 else Thumb0)
                  else None)
           in [PreventDefault, StopPropagation]
              @ (if key event = ''ArrowUp'' \<or> key event = ''ArrowRight''
                 then [Step Increment index]
                 else if key event = ''ArrowDown'' \<or> key event = ''ArrowLeft''
                 then [Step Decrement index]
                 else if key event = ''Home'' then [Step Minimum index]
                 else if key event = ''End'' then [Step Maximum index]
                 else if key event = ''PageUp'' then [Step IncrementJump index]
                 else if key event = ''PageDown'' then [Step DecrementJump index]
                 else [])))"

text \<open>The variant of \<open>unnamed/part_003\<close>: \<open>VALID_KEYS\<close> of lines 48-57 and
  \<open>handleKeyDown\<close> of lines 274-331. The thumb is found from
  \<open>event.target.closest('[role="slider"]')\<close>, here the field \<open>closestSlider\<close>.\<close>

definition VALID_KEYS_variant :: "string list" where
  "VALID_KEYS_variant =
     [''ArrowDown'', ''ArrowUp'', ''ArrowLeft'', ''ArrowRight'', ''Home'', ''End'']"

definition handleKeyDown_variant ::
  "bool \<Rightarrow> bool \<Rightarrow> SliderRefs \<Rightarrow> SliderValue \<Rightarrow> KeyboardEvent \<Rightarrow> Effect list" where
  "handleKeyDown_variant onKeyDown dis refs controls event =
     (if onKeyDown then [CallerOnKeyDown event] else [])
     @ (if altKey event \<or> ctrlKey event \<or> metaKey event \<or> shiftKey event \<or> dis
           \<or> key event \<notin> set VALID_KEYS_variant
        then []
        else
          (let index =
                 (if isRangeSlider controls
                  then Some (if same_node (closestSlider event) (thumb2Ref refs)
                             then Thumb1 else Thumb0)
                  else None)
           in [PreventDefault, StopPropagation]
              @ (if key event = ''ArrowUp'' \<or> key event = ''ArrowRight''
                 then [Step Increment index]
                 else if key event = ''ArrowDown'' \<or> key event = ''ArrowLeft''
                 then [Step Decrement index]
                 else if key event = ''Home'' then [Step Minimum index]
                 else if key event = ''End'' then [Step Maximum index]
                 else [])))"

text \<open>The stepping functions of a single-value slider's controls object, each a change of
  the value the model holds, and what a list of effects does to that value.\<close>

record SimpleSliderControls =
  increment :: "real \<Rightarrow> real"
  incrementJump :: "real \<Rightarrow> real"
  decrement :: "real \<Rightarrow> real"
  decrementJump :: "real \<Rightarrow> real"
  minimum :: "real \<Rightarrow> real"
  maximum :: "real \<Rightarrow> real"

fun call_step :: "SimpleSliderControls \<Rightarrow> StepOp \<Rightarrow> real \<Rightarrow> real" where
  "call_step c Increment = increment c"
| "call_step c IncrementJump = incrementJump c"
| "call_step c Decrement = decrement c"
| "call_step c DecrementJump = decrementJump c"
| "call_step c Minimum = minimum c"
| "call_step c Maximum = maximum c"

fun run_simple :: "SimpleSliderControls \<Rightarrow> Effect list \<Rightarrow> real \<Rightarrow> real" where
  "run_simple c [] v = v"
| "run_simple c (Step op _ # fx) v = run_simple c fx (call_step c op v)"
| "run_simple c (_ # fx) v = run_simple c fx v"

text \<open>Modelled from the spec: \<open>minimum\<close> of the single-value value model (the hook
  \<open>useSlider\<close>, which is not among the sources). Section 4.3: Home snaps to \<open>min\<close>.\<close>

definition snap_minimum :: "'a SliderGeometry_scheme \<Rightarrow> real \<Rightarrow> real" where
  "snap_minimum p v = min_v p"

text \<open>Modelled from the spec: \<open>maximum\<close> of the single-value value model (the hook
  \<open>useSlider\<close>, which is not among the sources). Section 4.3: End snaps to \<open>max\<close>.\<close>

definition snap_maximum :: "'a SliderGeometry_scheme \<Rightarrow> real \<Rightarrow> real" where
  "snap_maximum p v = max_v p"

subsection \<open>The derived values of a render\<close>

text \<open>Modelled from the spec: \<open>getPercentage\<close> of \<open>@react-md/utils\<close>, which is not among
  the sources. Section 4.2: \<open>(value - min) / (max - min)\<close>.\<close>

definition getPercentage :: "real \<Rightarrow> real \<Rightarrow> real \<Rightarrow> real" where
  "getPercentage lo hi v = (v - lo) / (hi - lo)"

text \<open>Lines 396-407 and the object returned at lines 433-446, without its callbacks.
  \<open>toString\<close> is the conversion of a number to a string that the template literal
  applies.\<close>

record SliderControls =
  thumb1Value :: real
  thumb1Percentage :: string
  thumb2Value :: "real option"
  thumb2Percentage :: "string option"
  dragging_out :: bool
  draggingIndex_out :: SliderThumbIndex

definition render :: "(real \<Rightarrow> string) \<Rightarrow> SliderProps \<Rightarrow> SliderState \<Rightarrow> SliderControls" where
  "render toString p s =
     (case controls_value s of
        RangeValue t1 t2 \<Rightarrow>
          \<lparr>thumb1Value = t1,
           thumb1Percentage = toString (getPercentage (min_v p) (max_v p) t1 * 100) @ ''%'',
           thumb2Value = Some t2,
           thumb2Percentage =
             Some (toString (getPercentage (min_v p) (max_v p) t2 * 100) @ ''%''),
           dragging_out = dragging s, draggingIndex_out = draggingIndex s\<rparr>
      | SingleValue t1 \<Rightarrow>
          \<lparr>thumb1Value = t1,
           thumb1Percentage = toString (getPercentage (min_v p) (max_v p) t1 * 100) @ ''%'',
           thumb2Value = None, thumb2Percentage = None,
           dragging_out = dragging s, draggingIndex_out = draggingIndex s\<rparr>)"

subsection \<open>The controller between events\<close>

text \<open>\<open>stop\<close>, lines 229-233.\<close>

definition stop :: "SliderState \<Rightarrow> SliderState" where
  "stop s = s\<lparr>dragging := False, draggingIndex := None, draggingBy := None\<rparr>"

text \<open>A listener on \<open>window\<close> is the \<open>drag\<close> callback of some render, known by the values
  it closed over (the dependency list of its \<open>useCallback\<close>), or \<open>stop\<close>.\<close>

datatype Listener = DragListener SliderProps SliderThumbIndex | StopListener

text \<open>The mounted hook: its state, the props and refs of the last render, the listeners it
  has on \<open>window\<close>, the pending timeouts (identifier and milliseconds left) it has set, and
  for each of the two effects the dependency list of its last run and the cleanup that run
  returned.\<close>

record Controller =
  state :: SliderState
  props :: SliderProps
  animationDuration :: nat
  mounted_refs :: SliderRefs
  onMouseDown :: bool
  onTouchStart :: bool
  listeners :: "(string \<times> Listener) list"
  timeouts :: "(nat \<times> nat) list"
  nextTimeout :: nat
  listenerDeps :: "SliderDraggingBy \<times> SliderProps \<times> SliderThumbIndex"
  listenerCleanup :: "(DraggingBy \<times> Listener) option"
  timerDeps :: "SliderThumbIndex \<times> SliderDraggingBy \<times> nat"
  timerCleanup :: "nat option"

text \<open>The host: \<open>window.addEventListener\<close> (a listener already registered for the event
  is not registered again), \<open>window.removeEventListener\<close> and \<open>window.clearTimeout\<close>.\<close>

definition addEventListener ::
  "string \<Rightarrow> Listener \<Rightarrow> (string \<times> Listener) list \<Rightarrow> (string \<times> Listener) list" where
  "addEventListener name l ls = (if (name, l) \<in> set ls then ls else ls @ [(name, l)])"

definition removeEventListener ::
  "string \<Rightarrow> Listener \<Rightarrow> (string \<times> Listener) list \<Rightarrow> (string \<times> Listener) list" where
  "removeEventListener name l ls = remove1 (name, l) ls"

definition clearTimeout :: "nat \<Rightarrow> (nat \<times> nat) list \<Rightarrow> (nat \<times> nat) list" where
  "clearTimeout t ts = filter (\<lambda>(i, _). i \<noteq> t) ts"

text \<open>Lines 240-246 and lines 249-255: the listeners the effect adds for a modality, and
  those its cleanup removes.\<close>

definition attach ::
  "DraggingBy \<Rightarrow> Listener \<Rightarrow> (string \<times> Listener) list \<Rightarrow> (string \<times> Listener) list" where
  "attach by d ls =
     (if by = Mouse
      then addEventListener ''mouseup'' StopListener (addEventListener ''mousemove'' d ls)
      else addEventListener ''touchend'' StopListener (addEventListener ''touchmove'' d ls))"

definition detach ::
  "DraggingBy \<Rightarrow> Listener \<Rightarrow> (string \<times> Listener) list \<Rightarrow> (string \<times> Listener) list" where
  "detach by d ls =
     (if by = Mouse
      then removeEventListener ''mouseup'' StopListener (removeEventListener ''mousemove'' d ls)
      else removeEventListener ''touchend'' StopListener
             (removeEventListener ''touchmove'' d ls))"

text \<open>The effect of lines 235-257, with dependencies \<open>[draggingBy, drag, stop]\<close>: when
  one of them has changed since its last run, the cleanup of that run and then its body.
  \<open>drag\<close> changes with the props and the \<open>draggingIndex\<close> it closes over; \<open>stop\<close>
  never does.\<close>

definition listenerEffect :: "Controller \<Rightarrow> Controller" where
  "listenerEffect c =
     (let deps = (draggingBy (state c), props c, draggingIndex (state c))
      in if deps = listenerDeps c then c
         else
           (let cleaned =
                  (case listenerCleanup c of
                     None \<Rightarrow> listeners c
                   | Some (by, d) \<Rightarrow> detach by d (listeners c))
            in case draggingBy (state c) of
                 None \<Rightarrow>
                   c\<lparr>listeners := cleaned, listenerDeps := deps, listenerCleanup := None\<rparr>
               | Some by \<Rightarrow>
                   (let d = DragListener (props c) (draggingIndex (state c))
                    in c\<lparr>listeners := attach by d cleaned, listenerDeps := deps,
                         listenerCleanup := Some (by, d)\<rparr>)))"

text \<open>The effect of lines 259-276, with dependencies
  \<open>[draggingIndex, draggingBy, animationDuration]\<close>.\<close>

definition timerEffect :: "Controller \<Rightarrow> Controller" where
  "timerEffect c =
     (let deps = (draggingIndex (state c), draggingBy (state c), animationDuration c)
      in if deps = timerDeps c then c
         else
           (let cleared =
                  (case timerCleanup c of
                     None \<Rightarrow> timeouts c
                   | Some t \<Rightarrow> clearTimeout t (timeouts c))
            in if draggingIndex (state c) = None \<and> draggingBy (state c) = None
               then c\<lparr>timeouts := cleared, timerDeps := deps, timerCleanup := None\<rparr>
               else if draggingIndex (state c) = None
               then c\<lparr>state := (state c)\<lparr>dragging := False\<rparr>, timeouts := cleared,
                      timerDeps := deps, timerCleanup := None\<rparr>
               else c\<lparr>timeouts := cleared @ [(nextTimeout c, animationDuration c)],
                      nextTimeout := Suc (nextTimeout c), timerDeps := deps,
                      timerCleanup := Some (nextTimeout c)\<rparr>))"

text \<open>What follows a render: both effects, in the order of their declaration. The state
  updates of one handler are rendered together, and the effects of that render have run
  before the next event is handled. The \<open>setDragging(false)\<close> of line 265 changes no
  dependency, so the render it causes runs no effect.\<close>

definition commit :: "Controller \<Rightarrow> Controller" where
  "commit c = timerEffect (listenerEffect c)"

text \<open>The hook after its first render: both effects have run on the initial state and
  returned no cleanup.\<close>

definition mount ::
  "SliderProps \<Rightarrow> nat \<Rightarrow> SliderRefs \<Rightarrow> bool \<Rightarrow> bool \<Rightarrow> SliderValue \<Rightarrow> Controller" where
  "mount p duration r omd ots v =
     \<lparr>state = \<lparr>dragging = False, draggingIndex = None, draggingBy = None, controls_value = v\<rparr>,
      props = p, animationDuration = duration, mounted_refs = r, onMouseDown = omd,
      onTouchStart = ots, listeners = [], timeouts = [], nextTimeout = 0,
      listenerDeps = (None, p, None), listenerCleanup = None,
      timerDeps = (None, None, duration), timerCleanup = None\<rparr>"

text \<open>Unmounting runs the cleanup of each effect.\<close>

definition unmount :: "Controller \<Rightarrow> Controller" where
  "unmount c =
     c\<lparr>listeners :=
         (case listenerCleanup c of
            None \<Rightarrow> listeners c
          | Some (by, d) \<Rightarrow> detach by d (listeners c)),
       listenerCleanup := None,
       timeouts :=
         (case timerCleanup c of None \<Rightarrow> timeouts c | Some t \<Rightarrow> clearTimeout t (timeouts c)),
       timerCleanup := None\<rparr>"

text \<open>\<open>handleMouseDown\<close> (lines 281-295) and \<open>handleTouchStart\<close> (lines 300-314), the
  callbacks of the last render: \<open>drag\<close> has closed over the props and the
  \<open>draggingIndex\<close> of that render.\<close>

definition handleMouseDown ::
  "Controller \<Rightarrow> SliderDragEvent \<Rightarrow> error + (Controller \<times> Effect list)" where
  "handleMouseDown c event =
     (let caller = (if onMouseDown c then [CallerOnMouseDown event] else [])
      in if draggingBy (state c) = None
         then (case drag (props c) (draggingIndex (state c)) (mounted_refs c) event (state c) of
                 Inl e \<Rightarrow> Inl e
               | Inr (s', fx) \<Rightarrow> Inr (c\<lparr>state := s'\<rparr>, caller @ fx))
         else Inr (c, caller))"

definition handleTouchStart ::
  "Controller \<Rightarrow> SliderDragEvent \<Rightarrow> error + (Controller \<times> Effect list)" where
  "handleTouchStart c event =
     (let caller = (if onTouchStart c then [CallerOnTouchStart event] else [])
      in if draggingBy (state c) = None
         then (case drag (props c) (draggingIndex (state c)) (mounted_refs c) event (state c) of
                 Inl e \<Rightarrow> Inl e
               | Inr (s', fx) \<Rightarrow> Inr (c\<lparr>state := s'\<rparr>, caller @ fx))
         else Inr (c, caller))"

text \<open>A listener called with an event; an exception leaves the state as it was.\<close>

definition invoke :: "Listener \<Rightarrow> SliderDragEvent \<Rightarrow> Controller \<Rightarrow> Controller" where
  "invoke l event c =
     (case l of
        DragListener p di \<Rightarrow>
          (case drag p di (mounted_refs c) event (state c) of
             Inl _ \<Rightarrow> c
           | Inr (s', _) \<Rightarrow> commit (c\<lparr>state := s'\<rparr>))
      | StopListener \<Rightarrow> commit (c\<lparr>state := stop (state c)\<rparr>))"

text \<open>An event on \<open>window\<close>: the listeners registered for it when it is dispatched are
  called in turn, those removed in the meantime left out.\<close>

fun dispatch :: "string \<Rightarrow> SliderDragEvent \<Rightarrow> Listener list \<Rightarrow> Controller \<Rightarrow> Controller" where
  "dispatch name event [] c = c"
| "dispatch name event (l # ls) c =
     dispatch name event ls
       (if (name, l) \<in> set (listeners c) then invoke l event c else c)"

text \<open>A timeout that has come due: its callback (line 270) runs unless it was cleared.\<close>

definition fire :: "nat \<Rightarrow> Controller \<Rightarrow> Controller" where
  "fire t c =
     (if t \<in> fst ` set (timeouts c)
      then commit (c\<lparr>state := (state c)\<lparr>dragging := True\<rparr>,
                     timeouts := clearTimeout t (timeouts c)\<rparr>)
      else c)"

text \<open>One millisecond passes: every pending timeout has one less to wait, and those with
  nothing left are fired.\<close>

definition tick :: "Controller \<Rightarrow> Controller" where
  "tick c =
     (let waited = map (\<lambda>(t, ms). (t, ms - 1)) (timeouts c);
          due = map fst (filter (\<lambda>(t, ms). ms = 0) waited)
      in fold fire due (c\<lparr>timeouts := waited\<rparr>))"

text \<open>What can happen to a mounted hook: a mouse-down or touch-start on the track, an
  event on \<open>window\<close>, the passing of a millisecond, a render with new props, a change of
  the refs, a new value of the value model.\<close>

datatype Event =
    MouseDown SliderDragEvent
  | TouchStart SliderDragEvent
  | WindowEvent string SliderDragEvent
  | Tick
  | SetProps SliderProps nat
  | SetRefs SliderRefs
  | SetControls SliderValue

fun step :: "Controller \<Rightarrow> Event \<Rightarrow> Controller" where
  "step c (MouseDown event) =
     (case handleMouseDown c event of Inl _ \<Rightarrow> c | Inr (c', _) \<Rightarrow> commit c')"
| "step c (TouchStart event) =
     (case handleTouchStart c event of Inl _ \<Rightarrow> c | Inr (c', _) \<Rightarrow> commit c')"
| "step c (WindowEvent name event) =
     dispatch name event (map snd (filter (\<lambda>(n, _). n = name) (listeners c))) c"
| "step c Tick = tick c"
| "step c (SetProps p duration) = commit (c\<lparr>props := p, animationDuration := duration\<rparr>)"
| "step c (SetRefs r) = c\<lparr>mounted_refs := r\<rparr>"
| "step c (SetControls v) = c\<lparr>state := (state c)\<lparr>controls_value := v\<rparr>\<rparr>"

definition run :: "Controller \<Rightarrow> Event list \<Rightarrow> Controller" where
  "run c evs = foldl step c evs"

subsection \<open>Vocabulary of the statements and sample inputs\<close>

text \<open>The coordinate a thumb is compared by (\<open>x\<close> for a horizontal slider, \<open>y\<close> for a
  vertical one), the corresponding coordinate of the pointer, and the \<open>draggingIndex\<close> a
  call of \<open>drag\<close> leaves.\<close>

definition thumb_coord :: "bool \<Rightarrow> HTMLSpanElement \<Rightarrow> real" where
  "thumb_coord vert e =
     (if vert then rect_y (getBoundingClientRect e) else rect_x (getBoundingClientRect e))"

definition pointer_coord :: "bool \<Rightarrow> real \<Rightarrow> real \<Rightarrow> real" where
  "pointer_coord vert cx cy = (if vert then cy else cx)"

definition thumb_after :: "error + (SliderState \<times> Effect list) \<Rightarrow> SliderThumbIndex" where
  "thumb_after r = (case r of Inl _ \<Rightarrow> None | Inr (s', _) \<Rightarrow> draggingIndex s')"

definition value_after :: "error + (SliderState \<times> Effect list) \<Rightarrow> SliderValue option" where
  "value_after r = (case r of Inl _ \<Rightarrow> None | Inr (s', _) \<Rightarrow> Some (controls_value s'))"

text \<open>A horizontal slider over \<open>[0, 100]\<close> with step 1, on a track 400 wide at the origin,
  with its thumbs at \<open>x = 100\<close> and \<open>x = 300\<close>.\<close>

definition element :: "nat \<Rightarrow> real \<Rightarrow> real \<Rightarrow> real \<Rightarrow> real \<Rightarrow> HTMLSpanElement" where
  "element n x y w h = \<lparr>node = n, getBoundingClientRect = DOMRect x y x y w h\<rparr>"

definition sample_props :: SliderProps where
  "sample_props =
     \<lparr>min_v = 0, max_v = 100, step = 1, vertical = False, isRtl = False, disabled = False\<rparr>"

definition sample_refs :: SliderRefs where
  "sample_refs =
     \<lparr>trackRef = Some (element 0 0 0 400 20), thumb1Ref = Some (element 1 100 0 20 20),
      thumb2Ref = Some (element 2 300 0 20 20)\<rparr>"

definition mouse_at :: "real \<Rightarrow> SliderDragEvent" where
  "mouse_at x =
     \<lparr>altKey = False, ctrlKey = False, metaKey = False, shiftKey = False,
      pointer = MouseEvent 0 x 10\<rparr>"

definition idle :: "SliderValue \<Rightarrow> SliderState" where
  "idle v = \<lparr>dragging = False, draggingIndex = None, draggingBy = None, controls_value = v\<rparr>"

definition key_press :: "string \<Rightarrow> nat \<Rightarrow> KeyboardEvent" where
  "key_press k n =
     \<lparr>altKey = False, ctrlKey = False, metaKey = False, shiftKey = False, key = k,
      currentTarget = element n 0 0 20 20, closestSlider = Some (element n 0 0 20 20)\<rparr>"

definition dragging_thumb :: "ThumbIndex \<Rightarrow> SliderValue \<Rightarrow> SliderState" where
  "dragging_thumb i v =
     \<lparr>dragging = True, draggingIndex = Some i, draggingBy = Some Mouse, controls_value = v\<rparr>"

text \<open>A controls object of a single-value slider, to be completed with the
  \<open>minimum\<close> and \<open>maximum\<close> of the value model.\<close>

definition some_controls :: SimpleSliderControls where
  "some_controls =
     \<lparr>increment = (\<lambda>v. v + 1), incrementJump = (\<lambda>v. v + 10), decrement = (\<lambda>v. v - 1),
      decrementJump = (\<lambda>v. v - 10), minimum = (\<lambda>v. v), maximum = (\<lambda>v. v)\<rparr>"

text \<open>The stepping call that section 4.3 of the specification assigns to each key.\<close>

definition step_of_key :: "string \<Rightarrow> StepOp option" where
  "step_of_key =
     map_of
       [(''ArrowUp'', Increment), (''ArrowRight'', Increment), (''ArrowDown'', Decrement),
        (''ArrowLeft'', Decrement), (''Home'', Minimum), (''End'', Maximum),
        (''PageUp'', IncrementJump), (''PageDown'', DecrementJump)]"

text \<open>The controllers that events can lead to from a mount.\<close>

inductive reachable :: "Controller \<Rightarrow> bool" where
  mounted: "reachable (mount p duration r omd ots v)"
| stepped: "reachable c \<Longrightarrow> reachable (step c e)"

text \<open>The names of the move and end events of a modality, and the listeners a controller
  should have on \<open>window\<close>: none while no modality is active, else the move and end
  listeners of the active modality, the move listener being the \<open>drag\<close> of the last
  render.\<close>

definition move_event :: "DraggingBy \<Rightarrow> string" where
  "move_event by = (if by = Mouse then ''mousemove'' else ''touchmove'')"

definition end_event :: "DraggingBy \<Rightarrow> string" where
  "end_event by = (if by = Mouse then ''mouseup'' else ''touchend'')"

fun listeners_for ::
  "SliderDraggingBy \<times> SliderProps \<times> SliderThumbIndex \<Rightarrow> (string \<times> Listener) list" where
  "listeners_for (None, p, di) = []"
| "listeners_for (Some b, p, di) =
     [(move_event b, DragListener p di), (end_event b, StopListener)]"

fun cleanup_for ::
  "SliderDraggingBy \<times> SliderProps \<times> SliderThumbIndex \<Rightarrow> (DraggingBy \<times> Listener) option" where
  "cleanup_for (None, p, di) = None"
| "cleanup_for (Some b, p, di) = Some (b, DragListener p di)"

definition expected_listeners :: "Controller \<Rightarrow> (string \<times> Listener) list" where
  "expected_listeners c =
     listeners_for (draggingBy (state c), props c, draggingIndex (state c))"

text \<open>What every reachable controller satisfies. Between a state update and the run of
  the effects: the listeners on \<open>window\<close> are those of the last run of the listener effect
  and its stored cleanup removes exactly them (\<open>listeners_ok\<close>); the only timeout that may
  be pending is the one the stored cleanup of the timer effect clears, and there is such a
  cleanup exactly when that effect last ran with a thumb active (\<open>timeouts_ok\<close>). Once the
  effects have run (\<open>consistent\<close>): moreover both dependency lists are those of the
  current state, a thumb is active exactly when a modality is, and \<open>dragging\<close> is set only
  while a thumb is active (\<open>session_ok\<close>).\<close>

definition session_ok :: "SliderState \<Rightarrow> bool" where
  "session_ok s \<longleftrightarrow>
     (draggingIndex s = None \<longleftrightarrow> draggingBy s = None)
     \<and> (dragging s \<longrightarrow> draggingIndex s \<noteq> None)"

definition listeners_ok :: "Controller \<Rightarrow> bool" where
  "listeners_ok c \<longleftrightarrow>
     listeners c = listeners_for (listenerDeps c)
     \<and> listenerCleanup c = cleanup_for (listenerDeps c)"

definition timeouts_ok :: "Controller \<Rightarrow> bool" where
  "timeouts_ok c \<longleftrightarrow>
     (timeouts c = [] \<or> (\<exists>t ms. timerCleanup c = Some t \<and> timeouts c = [(t, ms)]))
     \<and> (timerCleanup c = None \<longleftrightarrow> fst (timerDeps c) = None)"

definition consistent :: "Controller \<Rightarrow> bool" where
  "consistent c \<longleftrightarrow>
     listeners_ok c \<and> timeouts_ok c \<and> session_ok (state c)
     \<and> listenerDeps c = (draggingBy (state c), props c, draggingIndex (state c))
     \<and> timerDeps c = (draggingIndex (state c), draggingBy (state c), animationDuration c)"

text \<open>Traces. \<open>ticks\<close> counts the milliseconds of a trace; \<open>keeps_duration d\<close> holds of
  every event but a render that changes \<open>animationDuration\<close> from \<open>d\<close>. A
  \<open>session_event\<close> of a session of modality \<open>b\<close> on thumb \<open>i\<close> is any event but these:
  the end event of the modality, a move event of the modality that carries an event of
  the other modality, and a change of the refs that unmounts the second thumb while it is
  the active one.\<close>

fun ticks :: "Event list \<Rightarrow> nat" where
  "ticks [] = 0"
| "ticks (Tick # evs) = Suc (ticks evs)"
| "ticks (_ # evs) = ticks evs"

fun keeps_duration :: "nat \<Rightarrow> Event \<Rightarrow> bool" where
  "keeps_duration d (SetProps p d') = (d' = d)"
| "keeps_duration d _ = True"

fun session_event :: "DraggingBy \<Rightarrow> ThumbIndex \<Rightarrow> Event \<Rightarrow> bool" where
  "session_event b i Tick = True"
| "session_event b i (WindowEvent name event) =
     (name \<noteq> end_event b
      \<and> (name = move_event b \<longrightarrow>
            (isMouseEvent event \<longrightarrow> b = Mouse) \<and> (isTouchEvent event \<longrightarrow> b = Touch)))"
| "session_event b i (MouseDown event) = True"
| "session_event b i (TouchStart event) = True"
| "session_event b i (SetProps p d) = True"
| "session_event b i (SetRefs r) = (thumb2Ref r = None \<longrightarrow> i = Thumb0)"
| "session_event b i (SetControls v) = True"

fun pointer_down :: "Event \<Rightarrow> bool" where
  "pointer_down (MouseDown _) = True"
| "pointer_down (TouchStart _) = True"
| "pointer_down _ = False"

text \<open>Two conditions on a controller used along a trace. \<open>quiet d n\<close>, after \<open>n\<close>
  milliseconds: \<open>dragging\<close> is not set, the delay is \<open>d\<close> and no pending timeout was set
  for less than \<open>d\<close>. \<open>engaged d b i j\<close>, after \<open>j\<close> milliseconds of a session of
  modality \<open>b\<close> on thumb \<open>i\<close>: either the timeout set when the session began is still
  pending with \<open>d - j\<close> to go, or it has fired and \<open>dragging\<close> is set.\<close>

definition quiet :: "nat \<Rightarrow> nat \<Rightarrow> Controller \<Rightarrow> bool" where
  "quiet d n c \<longleftrightarrow>
     \<not> dragging (state c) \<and> animationDuration c = d
     \<and> (\<forall>(t, ms) \<in> set (timeouts c). d \<le> ms + n)"

definition engaged :: "nat \<Rightarrow> DraggingBy \<Rightarrow> ThumbIndex \<Rightarrow> nat \<Rightarrow> Controller \<Rightarrow> bool" where
  "engaged d b i j c \<longleftrightarrow>
     consistent c \<and> draggingBy (state c) = Some b \<and> draggingIndex (state c) = Some i
     \<and> animationDuration c = d
     \<and> (thumb2Ref (mounted_refs c) = None \<longrightarrow> i = Thumb0)
     \<and> ((dragging (state c) \<and> timeouts c = [])
         \<or> ((\<exists>t. timeouts c = [(t, d - j)]) \<and> (j < d \<or> j = 0)))"

section \<open>Properties\<close>

lemmas drag_defs = drag_def rejects_def clientPoint_def drag_index_def drag_slider_def
  drag_value_def drag_options_def

lemmas sample_defs = sample_props_def sample_refs_def mouse_at_def idle_def element_def
  key_press_def

lemmas machine_defs = handleMouseDown_def handleTouchStart_def invoke_def commit_def
  listenerEffect_def timerEffect_def attach_def detach_def addEventListener_def
  removeEventListener_def clearTimeout_def tick_def fire_def stop_def mount_def run_def

subsection \<open>Every reachable controller is consistent\<close>

lemmas listener_defs = attach_def detach_def addEventListener_def removeEventListener_def
  move_event_def end_event_def

lemma consistent_mount: "consistent (mount p d r omd ots v)"
  by (simp add: consistent_def listeners_ok_def timeouts_ok_def mount_def session_ok_def)

lemma listenerEffect_unchanged:
  "state (listenerEffect c) = state c" "props (listenerEffect c) = props c"
  "animationDuration (listenerEffect c) = animationDuration c"
  "mounted_refs (listenerEffect c) = mounted_refs c"
  "timeouts (listenerEffect c) = timeouts c" "nextTimeout (listenerEffect c) = nextTimeout c"
  "timerDeps (listenerEffect c) = timerDeps c" "timerCleanup (listenerEffect c) = timerCleanup c"
  by (simp_all add: listenerEffect_def Let_def split: option.splits prod.splits)

lemma listenerEffect_deps:
  "listenerDeps (listenerEffect c) = (draggingBy (state c), props c, draggingIndex (state c))"
  by (simp add: listenerEffect_def Let_def split: option.splits prod.splits)

lemma listenerEffect_ok:
  assumes "listeners_ok c"
  shows "listeners_ok (listenerEffect c)"
proof (cases "(draggingBy (state c), props c, draggingIndex (state c)) = listenerDeps c")
  case True
  then show ?thesis using assms by (simp add: listenerEffect_def)
next
  case False
  obtain m p di where d: "listenerDeps c = (m, p, di)" by (cases "listenerDeps c")
  show ?thesis
    using False assms
    by (cases m; cases "draggingBy (state c)")
       (auto simp: listeners_ok_def listenerEffect_def listener_defs Let_def d split: DraggingBy.splits)
qed

lemma timerEffect_unchanged:
  "props (timerEffect c) = props c"
  "animationDuration (timerEffect c) = animationDuration c"
  "mounted_refs (timerEffect c) = mounted_refs c"
  "listeners (timerEffect c) = listeners c" 
  "listenerDeps (timerEffect c) = listenerDeps c" "listenerCleanup (timerEffect c) = listenerCleanup c"
  "draggingIndex (state (timerEffect c)) = draggingIndex (state c)"
  "draggingBy (state (timerEffect c)) = draggingBy (state c)"
  "controls_value (state (timerEffect c)) = controls_value (state c)"
  by (simp_all add: timerEffect_def Let_def split: option.splits prod.splits)

lemma timerEffect_deps:
  "timerDeps (timerEffect c) = (draggingIndex (state c), draggingBy (state c), animationDuration c)"
  by (simp add: timerEffect_def Let_def split: option.splits prod.splits)

lemma timerEffect_ok:
  assumes "timeouts_ok c"
  shows "timeouts_ok (timerEffect c)"
  using assms
  by (auto simp: timeouts_ok_def timerEffect_def clearTimeout_def Let_def split: option.splits)

lemma timerEffect_dragging:
  "dragging (state (timerEffect c)) \<Longrightarrow> dragging (state c)"
  by (auto simp: timerEffect_def Let_def split: option.splits if_splits)

lemma commit_consistent:
  assumes "listeners_ok c" "timeouts_ok c" and "session_ok (state c)"
  shows "consistent (commit c)"
  unfolding consistent_def commit_def
  using listenerEffect_ok[OF assms(1)] timerEffect_ok[of "listenerEffect c"] assms(2,3)
    timerEffect_dragging[of "listenerEffect c"]
  by (auto simp add: timerEffect_unchanged listenerEffect_unchanged timerEffect_deps listenerEffect_deps
      session_ok_def listeners_ok_def timeouts_ok_def)

lemma drag_session_ok:
  assumes "session_ok s" and "drag p (draggingIndex s) refs event s = Inr (s', fx)"
  shows "session_ok s'"
  using assms
  by (auto simp: drag_def session_ok_def Let_def split: if_splits option.splits sum.splits)

lemma stop_session_ok: "session_ok (stop s)"
  by (simp add: stop_def session_ok_def)

lemma ok_state_update [simp]:
  "listeners_ok (c\<lparr>state := s'\<rparr>) = listeners_ok c"
  "timeouts_ok (c\<lparr>state := s'\<rparr>) = timeouts_ok c"
  by (simp_all add: listeners_ok_def timeouts_ok_def)

lemma ok_props_update [simp]:
  "listeners_ok (c\<lparr>props := p', animationDuration := d'\<rparr>) = listeners_ok c"
  "timeouts_ok (c\<lparr>props := p', animationDuration := d'\<rparr>) = timeouts_ok c"
  by (simp_all add: listeners_ok_def timeouts_ok_def)

lemma consistentD:
  assumes "consistent c"
  shows "listeners_ok c" "timeouts_ok c" "session_ok (state c)"
    "listeners c = expected_listeners c"
  using assms by (simp_all add: consistent_def listeners_ok_def expected_listeners_def)

lemma pointer_down_consistent:
  assumes "consistent c"
  shows "consistent (step c (MouseDown event))" "consistent (step c (TouchStart event))"
  using assms consistentD[OF assms]
  by (auto simp: handleMouseDown_def handleTouchStart_def Let_def
      intro!: commit_consistent dest: drag_session_ok split: sum.splits)

lemma invoke_consistent:
  assumes "consistent c" and "l = StopListener \<or> l = DragListener p (draggingIndex (state c))"
  shows "consistent (invoke l event c)"
proof (cases l)
  case StopListener
  then show ?thesis using consistentD[OF assms(1)]
    by (simp add: invoke_def stop_session_ok commit_consistent)
next
  case (DragListener p' di)
  then have l: "l = DragListener p (draggingIndex (state c))" using assms(2) by simp
  show ?thesis
  proof (cases "drag p (draggingIndex (state c)) (mounted_refs c) event (state c)")
    case (Inl e)
    then show ?thesis using l assms(1) by (simp add: invoke_def)
  next
    case (Inr r)
    obtain s' fx where r: "r = (s', fx)" by (cases r)
    have "session_ok s'"
      using drag_session_ok[OF consistentD(3)[OF assms(1)]] Inr r by simp
    then show ?thesis using l Inr r consistentD[OF assms(1)]
      by (simp add: invoke_def commit_consistent)
  qed
qed

lemma window_event_consistent:
  assumes "consistent c"
  shows "consistent (step c (WindowEvent name event))"
proof (cases "draggingBy (state c)")
  case None
  then show ?thesis using assms consistentD(4)[OF assms]
    by (simp add: expected_listeners_def)
next
  case (Some b)
  have l: "listeners c = [(move_event b, DragListener (props c) (draggingIndex (state c))),
           (end_event b, StopListener)]"
    using consistentD(4)[OF assms] Some by (simp add: expected_listeners_def)
  have ne: "move_event b \<noteq> end_event b"
    by (simp add: move_event_def end_event_def)
  consider "name = move_event b" | "name = end_event b"
    | "name \<noteq> move_event b" "name \<noteq> end_event b" by blast
  then show ?thesis
  proof cases
    case 1
    then show ?thesis using l ne assms by (simp add: invoke_consistent)
  next
    case 2
    then show ?thesis using l ne assms by (simp add: invoke_consistent)
  next
    case 3
    then show ?thesis using l assms by simp
  qed
qed

lemma tick_consistent:
  assumes "consistent c"
  shows "consistent (tick c)"
proof (cases "timeouts c")
  case Nil
  then show ?thesis using assms
    by (simp add: tick_def consistent_def listeners_ok_def timeouts_ok_def)
next
  case (Cons a ts)
  then obtain t ms where tm: "timeouts c = [(t, ms)]" "timerCleanup c = Some t"
    using consistentD(2)[OF assms] by (auto simp: timeouts_ok_def)
  have di: "draggingIndex (state c) \<noteq> None"
    using assms tm by (auto simp: consistent_def timeouts_ok_def)
  show ?thesis
  proof (cases "ms - 1 = 0")
    case True
    have "consistent (commit (c\<lparr>timeouts := [(t, 0)]\<rparr>\<lparr>state := (state c)\<lparr>dragging := True\<rparr>, timeouts := []\<rparr>))"
      using assms tm di consistentD[OF assms]
      by (intro commit_consistent) (auto simp: listeners_ok_def timeouts_ok_def session_ok_def)
    then show ?thesis using True tm
      by (simp add: tick_def fire_def clearTimeout_def)
  next
    case False
    then show ?thesis using tm assms
      by (auto simp add: tick_def consistent_def listeners_ok_def timeouts_ok_def)
  qed
qed

lemma set_props_consistent:
  assumes "consistent c"
  shows "consistent (step c (SetProps p d))"
  using consistentD[OF assms]
  by (auto intro!: commit_consistent)

lemma step_consistent:
  assumes "consistent c"
  shows "consistent (step c e)"
proof (cases e)
  case (MouseDown x1)
  then show ?thesis using pointer_down_consistent[OF assms] by simp
next
  case (TouchStart x2)
  then show ?thesis using pointer_down_consistent[OF assms] by simp
next
  case (WindowEvent x31 x32)
  then show ?thesis using window_event_consistent[OF assms] by simp
next
  case Tick
  then show ?thesis using tick_consistent[OF assms] by simp
next
  case (SetProps x51 x52)
  then show ?thesis using set_props_consistent[OF assms] by simp
next
  case (SetRefs x6)
  then show ?thesis using assms
    by (simp add: consistent_def listeners_ok_def timeouts_ok_def)
next
  case (SetControls x7)
  then show ?thesis using assms
    by (auto simp add: consistent_def listeners_ok_def timeouts_ok_def session_ok_def)
qed

lemma reachable_consistent: "reachable c \<Longrightarrow> consistent c"
  by (induction rule: reachable.induct) (simp_all add: consistent_mount step_consistent)

subsection \<open>Before the delay has passed\<close>

lemma commit_dragging: "dragging (state (commit c)) \<Longrightarrow> dragging (state c)"
  using timerEffect_dragging[of "listenerEffect c"]
  by (simp add: commit_def listenerEffect_unchanged)

lemma commit_duration [simp]: "animationDuration (commit c) = animationDuration c"
  by (simp add: commit_def listenerEffect_unchanged timerEffect_unchanged)

lemma commit_refs [simp]: "mounted_refs (commit c) = mounted_refs c"
  by (simp add: commit_def listenerEffect_unchanged timerEffect_unchanged)

lemma timerEffect_timeouts:
  "set (timeouts (timerEffect c)) \<subseteq> insert (nextTimeout c, animationDuration c) (set (timeouts c))"
  by (auto simp: timerEffect_def clearTimeout_def Let_def split: option.splits)

lemma commit_timeouts:
  "set (timeouts (commit c)) \<subseteq> insert (nextTimeout c, animationDuration c) (set (timeouts c))"
  using timerEffect_timeouts[of "listenerEffect c"]
  by (simp add: commit_def listenerEffect_unchanged)

lemma drag_dragging:
  "drag p di refs event s = Inr (s', fx) \<Longrightarrow> dragging s' = dragging s"
  by (auto simp: drag_def Let_def split: if_splits option.splits sum.splits)

lemma quiet_commit:
  assumes "quiet d n c"
  shows "quiet d n (commit c)"
  using assms commit_dragging[of c] commit_timeouts[of c]
  by (auto simp: quiet_def)

lemma quiet_state:
  assumes "quiet d n c" "dragging s' \<longrightarrow> dragging (state c)"
  shows "quiet d n (c\<lparr>state := s'\<rparr>)"
  using assms by (auto simp: quiet_def)

lemma quiet_invoke:
  assumes "quiet d n c"
  shows "quiet d n (invoke l event c)"
proof (cases l)
  case (DragListener p di)
  then show ?thesis using assms
    by (auto simp: invoke_def split: sum.splits intro!: quiet_commit quiet_state dest: drag_dragging)
next
  case StopListener
  then show ?thesis using assms
    by (auto simp: invoke_def stop_def intro!: quiet_commit quiet_state)
qed

lemma quiet_dispatch:
  assumes "quiet d n c"
  shows "quiet d n (dispatch name event ls c)"
  using assms by (induction ls arbitrary: c) (simp_all add: quiet_invoke)

lemma quiet_step:
  assumes "quiet d n c" "e \<noteq> Tick" "keeps_duration d e"
  shows "quiet d n (step c e)"
proof (cases e)
  case (MouseDown ev)
  then show ?thesis using assms(1)
    by (auto simp: handleMouseDown_def Let_def split: sum.splits intro!: quiet_commit quiet_state dest: drag_dragging)
next
  case (TouchStart ev)
  then show ?thesis using assms(1)
    by (auto simp: handleTouchStart_def Let_def split: sum.splits intro!: quiet_commit quiet_state dest: drag_dragging)
next
  case (WindowEvent n ev)
  then show ?thesis using assms(1) by (simp add: quiet_dispatch)
next
  case Tick
  then show ?thesis using assms by simp
next
  case (SetProps p d')
  then have "quiet d n (c\<lparr>props := p, animationDuration := d'\<rparr>)"
    using assms by (auto simp: quiet_def)
  then show ?thesis using SetProps by (simp add: quiet_commit)
next
  case (SetRefs r)
  then show ?thesis using assms(1) by (auto simp: quiet_def)
next
  case (SetControls v)
  then show ?thesis using assms(1) by (auto simp: quiet_def)
qed

lemma quiet_tick:
  assumes "quiet d n c" "Suc n < d"
  shows "quiet d (Suc n) (tick c)"
proof -
  have "filter (\<lambda>(t, ms). ms = 0) (map (\<lambda>(t, ms). (t, ms - 1)) (timeouts c)) = []"
    using assms by (auto simp: quiet_def filter_empty_conv)
  then show ?thesis using assms
    by (auto simp: tick_def quiet_def)
qed

lemma quiet_run:
  assumes "quiet d n c" "list_all (keeps_duration d) tr" "n + ticks tr < d"
  shows "quiet d (n + ticks tr) (run c tr)"
  using assms
proof (induction tr arbitrary: c n)
  case Nil
  then show ?case by (simp add: run_def)
next
  case (Cons e tr)
  show ?case
  proof (cases "e = Tick")
    case True
    then have "quiet d (Suc n) (step c e)" using Cons.prems by (simp add: quiet_tick)
    from Cons.IH[OF this] Cons.prems True show ?thesis by (simp add: run_def)
  next
    case False
    then have t: "ticks (e # tr) = ticks tr" by (cases e) simp_all
    have "quiet d n (step c e)" using Cons.prems False by (simp add: quiet_step)
    from Cons.IH[OF this] Cons.prems t show ?thesis by (simp add: run_def)
  qed
qed

subsection \<open>Move and end events of a session\<close>

lemma commit_noop:
  assumes "listenerDeps c = (draggingBy (state c), props c, draggingIndex (state c))"
    and "timerDeps c = (draggingIndex (state c), draggingBy (state c), animationDuration c)"
  shows "commit c = c"
  using assms by (simp add: commit_def listenerEffect_def timerEffect_def)

lemma commit_index [simp]:
  "draggingIndex (state (commit c)) = draggingIndex (state c)"
  "draggingBy (state (commit c)) = draggingBy (state c)"
  "controls_value (state (commit c)) = controls_value (state c)"
  by (simp_all add: commit_def listenerEffect_unchanged timerEffect_unchanged)

lemma drag_active:
  assumes "drag p (Some i) refs event s = Inr (s', fx)" and "draggingIndex s = Some i"
    and "thumb2Ref refs = None \<longrightarrow> i = Thumb0"
  shows "draggingIndex s' = Some i" 
    and "dragging s' = dragging s"
    and "draggingBy s' = draggingBy s \<or> draggingBy s' = Some (if isMouseEvent event then Mouse else Touch)"
  using assms
  by (auto simp: drag_def drag_index_def Let_def split: if_splits option.splits sum.splits)

lemma move_dispatch:
  assumes "consistent c" and "draggingBy (state c) = Some b"
  shows "step c (WindowEvent (move_event b) event)
           = invoke (DragListener (props c) (draggingIndex (state c))) event c"
    and "step c (WindowEvent (end_event b) event) = invoke StopListener event c"
proof -
  have l: "listeners c = [(move_event b, DragListener (props c) (draggingIndex (state c))),
           (end_event b, StopListener)]"
    using consistentD(4)[OF assms(1)] assms(2) by (simp add: expected_listeners_def)
  have ne: "move_event b \<noteq> end_event b"
    by (simp add: move_event_def end_event_def)
  show "step c (WindowEvent (move_event b) event)
           = invoke (DragListener (props c) (draggingIndex (state c))) event c"
    using l ne by simp
  show "step c (WindowEvent (end_event b) event) = invoke StopListener event c"
    using l ne by simp
qed

lemma move_keeps_thumb:
  assumes "consistent c" and "draggingBy (state c) = Some b"
    and "draggingIndex (state c) = Some i"
    and "thumb2Ref (mounted_refs c) = None \<longrightarrow> i = Thumb0"
  shows "draggingIndex (state (step c (WindowEvent (move_event b) event))) = Some i"
proof (cases "drag (props c) (Some i) (mounted_refs c) event (state c)")
  case (Inl e)
  then show ?thesis using assms
    by (simp add: move_dispatch(1)[OF assms(1,2)] invoke_def del: step.simps)
next
  case (Inr r)
  obtain s' fx where r: "r = (s', fx)" by (cases r)
  have "draggingIndex s' = Some i"
    using drag_active(1)[OF _ assms(3,4)] Inr r by simp
  then show ?thesis using assms Inr r
    by (simp add: move_dispatch(1)[OF assms(1,2)] invoke_def del: step.simps)
qed

lemma end_clears:
  assumes "consistent c" and "draggingBy (state c) = Some b"
  shows "state (step c (WindowEvent (end_event b) event)) = stop (state c)"
    and "timeouts (step c (WindowEvent (end_event b) event)) = []"
    and "listeners (step c (WindowEvent (end_event b) event)) = []"
proof -
  let ?c = "step c (WindowEvent (end_event b) event)"
  have e: "?c = commit (c\<lparr>state := stop (state c)\<rparr>)"
    by (simp add: move_dispatch(2)[OF assms] invoke_def del: step.simps)
  have k: "consistent ?c" using assms(1) by (rule step_consistent)
  have i: "draggingIndex (state ?c) = None" "draggingBy (state ?c) = None"
    by (simp_all add: e stop_def del: step.simps)
  have "\<not> dragging (state ?c)"
    using consistentD(3)[OF k] i by (auto simp: session_ok_def simp del: step.simps)
  moreover have "controls_value (state ?c) = controls_value (state c)"
    by (simp add: e stop_def del: step.simps)
  ultimately show "state ?c = stop (state c)" using i
    by (simp add: stop_def del: step.simps)
  show "timeouts ?c = []"
    using k i by (auto simp: consistent_def timeouts_ok_def simp del: step.simps)
  show "listeners ?c = []"
    using consistentD(4)[OF k] i by (simp add: expected_listeners_def del: step.simps)
qed

subsection \<open>A session that outlives the delay\<close>

lemma tick_idle:
  assumes "timeouts c = []"
  shows "tick c = c"
proof -
  have "c\<lparr>timeouts := timeouts c\<rparr> = c" by simp
  then show ?thesis using assms by (simp add: tick_def)
qed

lemma drag_started:
  assumes "drag p None refs event s = Inr (s', fx)" and "draggingBy s = None"
    and "draggingBy s' = Some b"
  shows "\<exists>i. draggingIndex s' = Some i \<and> (thumb2Ref refs = None \<longrightarrow> i = Thumb0)"
  using assms
  by (auto simp: drag_def drag_index_def Let_def split: if_splits option.splits sum.splits)

lemma pointer_down_step:
  assumes "pointer_down e" and "draggingBy (state c) = None"
  shows "\<exists>event. step c e =
           (case drag (props c) (draggingIndex (state c)) (mounted_refs c) event (state c) of
              Inl _ \<Rightarrow> c
            | Inr (s', fx) \<Rightarrow> commit (c\<lparr>state := s'\<rparr>))"
proof (cases e)
  case (MouseDown ev)
  have "step c e =
           (case drag (props c) (draggingIndex (state c)) (mounted_refs c) ev (state c) of
              Inl _ \<Rightarrow> c
            | Inr (s', fx) \<Rightarrow> commit (c\<lparr>state := s'\<rparr>))"
    using assms(2) MouseDown by (simp add: handleMouseDown_def split: sum.splits)
  then show ?thesis ..
next
  case (TouchStart ev)
  have "step c e =
           (case drag (props c) (draggingIndex (state c)) (mounted_refs c) ev (state c) of
              Inl _ \<Rightarrow> c
            | Inr (s', fx) \<Rightarrow> commit (c\<lparr>state := s'\<rparr>))"
    using assms(2) TouchStart by (simp add: handleTouchStart_def split: sum.splits)
  then show ?thesis ..
qed (use assms(1) in simp_all)

lemma engaged_dragging:
  assumes "engaged d b i j c" and "d \<le> j" and "0 < j"
  shows "dragging (state c)"
  using assms by (auto simp: engaged_def)

lemma engaged_tick:
  assumes "engaged d b i j c"
  shows "engaged d b i (Suc j) (tick c)"
proof (cases "timeouts c")
  case Nil
  then show ?thesis using assms by (auto simp: tick_idle engaged_def)
next
  case (Cons a ts)
  then obtain t where t: "timeouts c = [(t, d - j)]" "j < d \<or> j = 0"
    using assms by (auto simp: engaged_def)
  have k: "consistent c" using assms by (simp add: engaged_def)
  show ?thesis
  proof (cases "d - j - 1 = 0")
    case True
    let ?c = "c\<lparr>timeouts := [(t, 0)]\<rparr>\<lparr>state := (state c)\<lparr>dragging := True\<rparr>, timeouts := []\<rparr>"
    have f: "tick c = commit ?c"
      using True t by (simp add: tick_def fire_def clearTimeout_def)
    have "commit ?c = ?c"
      using k by (intro commit_noop) (simp_all add: consistent_def)
    moreover have "consistent ?c"
      using k assms
      by (auto simp: consistent_def engaged_def listeners_ok_def timeouts_ok_def session_ok_def)
    ultimately show ?thesis using assms f
      by (simp add: engaged_def)
  next
    case False
    then have "tick c = c\<lparr>timeouts := [(t, d - Suc j)]\<rparr>"
      using t by (simp add: tick_def)
    moreover have "consistent (c\<lparr>timeouts := [(t, d - Suc j)]\<rparr>)"
      using k t by (auto simp: consistent_def listeners_ok_def timeouts_ok_def)
    ultimately show ?thesis using assms False t
      by (auto simp: engaged_def)
  qed
qed

lemma drag_modality:
  assumes "drag p di refs event s = Inr (s', fx)"
  shows "draggingBy s' = draggingBy s
    \<or> (isMouseEvent event \<and> draggingBy s' = Some Mouse)
    \<or> (isTouchEvent event \<and> draggingBy s' = Some Touch)"
  using assms
  by (auto simp: drag_def rejects_def Let_def split: if_splits option.splits sum.splits)

lemma engaged_state:
  assumes "engaged d b i j c" and "draggingIndex s' = Some i" and "draggingBy s' = Some b"
    and "dragging s' = dragging (state c)"
  shows "engaged d b i j (c\<lparr>state := s'\<rparr>)" and "commit (c\<lparr>state := s'\<rparr>) = c\<lparr>state := s'\<rparr>"
proof -
  have k: "consistent c" and m: "draggingBy (state c) = Some b"
    and di: "draggingIndex (state c) = Some i"
    using assms(1) by (auto simp: engaged_def)
  show "commit (c\<lparr>state := s'\<rparr>) = c\<lparr>state := s'\<rparr>"
    using k assms(2,3) m di by (intro commit_noop) (simp_all add: consistent_def)
  have "consistent (c\<lparr>state := s'\<rparr>)"
    using k assms(2,3,4) m di by (auto simp: consistent_def session_ok_def)
  then show "engaged d b i j (c\<lparr>state := s'\<rparr>)"
    using assms by (auto simp: engaged_def)
qed

lemma engaged_move:
  assumes "engaged d b i j c"
    and "isMouseEvent event \<longrightarrow> b = Mouse" and "isTouchEvent event \<longrightarrow> b = Touch"
  shows "engaged d b i j (step c (WindowEvent (move_event b) event))"
proof -
  have k: "consistent c" and m: "draggingBy (state c) = Some b"
    and di: "draggingIndex (state c) = Some i"
    and r: "thumb2Ref (mounted_refs c) = None \<longrightarrow> i = Thumb0"
    using assms(1) by (auto simp: engaged_def)
  have s: "step c (WindowEvent (move_event b) event)
           = invoke (DragListener (props c) (Some i)) event c"
    using move_dispatch(1)[OF k m] di by simp
  show ?thesis
  proof (cases "drag (props c) (Some i) (mounted_refs c) event (state c)")
    case (Inl e)
    then show ?thesis using assms(1) unfolding s by (simp add: invoke_def)
  next
    case (Inr res)
    obtain s' fx where res: "res = (s', fx)" by (cases res)
    have d: "drag (props c) (Some i) (mounted_refs c) event (state c) = Inr (s', fx)"
      using Inr res by simp
    have a: "draggingIndex s' = Some i" "dragging s' = dragging (state c)"
      using drag_active(1,2)[OF d di r] by simp_all
    have a3: "draggingBy s' = Some b"
      using drag_modality[OF d] m assms(2,3) by auto
    have st: "step c (WindowEvent (move_event b) event) = c\<lparr>state := s'\<rparr>"
      unfolding s by (simp add: invoke_def d engaged_state(2)[OF assms(1) a(1) a3 a(2)])
    show ?thesis unfolding st by (rule engaged_state(1)[OF assms(1) a(1) a3 a(2)])
  qed
qed

lemma other_window_event:
  assumes "consistent c" and "draggingBy (state c) = Some b"
    and "name \<noteq> move_event b" and "name \<noteq> end_event b"
  shows "step c (WindowEvent name event) = c"
proof -
  have "listeners c = [(move_event b, DragListener (props c) (draggingIndex (state c))),
           (end_event b, StopListener)]"
    using consistentD(4)[OF assms(1)] assms(2) by (simp add: expected_listeners_def)
  then show ?thesis using assms(3,4) by simp
qed

lemma pointer_down_ignored:
  assumes "consistent c" and "draggingBy (state c) = Some b" and "pointer_down e"
  shows "step c e = c"
proof -
  have "commit c = c" using assms(1) by (intro commit_noop) (simp_all add: consistent_def)
  then show ?thesis using assms(2,3)
    by (cases e) (simp_all add: handleMouseDown_def handleTouchStart_def)
qed

lemma timerEffect_noop:
  assumes "timerDeps c = (draggingIndex (state c), draggingBy (state c), animationDuration c)"
  shows "timerEffect c = c"
  using assms by (simp add: timerEffect_def)

lemma engaged_props:
  assumes "engaged d b i j c"
  shows "engaged d b i j (step c (SetProps p d))"
proof -
  let ?c = "c\<lparr>props := p, animationDuration := d\<rparr>"
  have k: "consistent c" and dur: "animationDuration c = d"
    using assms by (auto simp: engaged_def)
  have t: "timerEffect (listenerEffect ?c) = listenerEffect ?c"
    using k dur by (intro timerEffect_noop) (simp add: listenerEffect_unchanged consistent_def)
  have s: "state (step c (SetProps p d)) = state c"
    "timeouts (step c (SetProps p d)) = timeouts c"
    "animationDuration (step c (SetProps p d)) = d"
    "mounted_refs (step c (SetProps p d)) = mounted_refs c"
    by (simp_all add: commit_def t listenerEffect_unchanged)
  have "consistent (step c (SetProps p d))" using k by (rule step_consistent)
  then show ?thesis using assms unfolding engaged_def s by simp
qed

lemma engaged_step:
  assumes "engaged d b i j c" and "session_event b i e" and "keeps_duration d e"
    and "e \<noteq> Tick"
  shows "engaged d b i j (step c e)"
proof -
  have k: "consistent c" and m: "draggingBy (state c) = Some b"
    using assms(1) by (auto simp: engaged_def)
  show ?thesis
  proof (cases e)
    case (MouseDown ev)
    then show ?thesis using pointer_down_ignored[OF k m, of e] assms(1) by simp
  next
    case (TouchStart ev)
    then show ?thesis using pointer_down_ignored[OF k m, of e] assms(1) by simp
  next
    case (WindowEvent name ev)
    show ?thesis
    proof (cases "name = move_event b")
      case True
      then show ?thesis using engaged_move[OF assms(1), of ev] assms(2) WindowEvent
        by simp
    next
      case False
      then have "step c e = c"
        using other_window_event[OF k m, of name ev] assms(2) WindowEvent by simp
      then show ?thesis using assms(1) by simp
    qed
  next
    case Tick
    then show ?thesis using assms(4) by simp
  next
    case (SetProps p d')
    then show ?thesis using engaged_props[OF assms(1), of p] assms(3) by simp
  next
    case (SetRefs r)
    have "consistent (step c e)" using k by (rule step_consistent)
    then show ?thesis using assms(1,2) SetRefs by (simp add: engaged_def)
  next
    case (SetControls v)
    have "consistent (step c e)" using k by (rule step_consistent)
    then show ?thesis using assms(1) SetControls by (simp add: engaged_def)
  qed
qed

lemma engaged_run:
  assumes "engaged d b i j c" and "list_all (session_event b i) tr"
    and "list_all (keeps_duration d) tr"
  shows "engaged d b i (j + ticks tr) (run c tr)"
  using assms
proof (induction tr arbitrary: c j)
  case Nil
  then show ?case by (simp add: run_def)
next
  case (Cons e tr)
  have rest: "list_all (session_event b i) tr" "list_all (keeps_duration d) tr"
    and se: "session_event b i e" "keeps_duration d e"
    using Cons.prems(2,3) by simp_all
  show ?case
  proof (cases "e = Tick")
    case True
    have "engaged d b i (Suc j) (step c e)"
      using Cons.prems(1) True by (simp add: engaged_tick)
    from Cons.IH[OF this rest] True show ?thesis by (simp add: run_def)
  next
    case False
    then have t: "ticks (e # tr) = ticks tr" by (cases e) simp_all
    have "engaged d b i j (step c e)"
      using Cons.prems(1) se False by (rule engaged_step)
    from Cons.IH[OF this rest] t show ?thesis by (simp add: run_def)
  qed
qed

lemma pointer_down_engaged:
  assumes "consistent c" and "draggingBy (state c) = None" and "pointer_down e"
    and "draggingBy (state (step c e)) = Some b"
  shows "\<exists>i. engaged (animationDuration c) b i 0 (step c e)"
proof -
  have di: "draggingIndex (state c) = None" and nd: "\<not> dragging (state c)"
    using consistentD(3)[OF assms(1)] assms(2) by (auto simp: session_ok_def)
  have tc: "timerCleanup c = None" "timeouts c = []"
    using assms(1) di by (auto simp: consistent_def timeouts_ok_def)
  obtain event where st: "step c e =
           (case drag (props c) None (mounted_refs c) event (state c) of
              Inl _ \<Rightarrow> c
            | Inr (s', fx) \<Rightarrow> commit (c\<lparr>state := s'\<rparr>))"
    using pointer_down_step[OF assms(3,2)] di by auto
  show ?thesis
  proof (cases "drag (props c) None (mounted_refs c) event (state c)")
    case (Inl err)
    then have "step c e = c" using st by simp
    then show ?thesis using assms(2,4) by simp
  next
    case (Inr res)
    obtain s' fx where res: "res = (s', fx)" by (cases res)
    have d: "drag (props c) None (mounted_refs c) event (state c) = Inr (s', fx)"
      using Inr res by simp
    have s: "step c e = commit (c\<lparr>state := s'\<rparr>)" using st d by simp
    have b: "draggingBy s' = Some b" using assms(4) s by simp
    from drag_started[OF d assms(2) b]
    obtain i where i: "draggingIndex s' = Some i"
      "thumb2Ref (mounted_refs c) = None \<longrightarrow> i = Thumb0"
      by auto
    have "\<not> dragging s'" using drag_dragging[OF d] nd by simp
    then have "\<not> dragging (state (step c e))"
      unfolding s using commit_dragging[of "c\<lparr>state := s'\<rparr>"] by auto
    moreover have "timeouts (commit (c\<lparr>state := s'\<rparr>)) = [(nextTimeout c, animationDuration c)]"
      using assms(1) tc i di
      by (simp add: commit_def timerEffect_def listenerEffect_unchanged consistent_def)
    moreover have "consistent (step c e)" using assms(1) by (rule step_consistent)
    ultimately have "engaged (animationDuration c) b i 0 (step c e)"
      using i b unfolding s by (simp add: engaged_def)
    then show ?thesis ..
  qed
qed

subsection \<open>Traces, idle controllers and unmounting\<close>

lemma run_Cons: "run c (e # tr) = run (step c e) tr"
  by (simp add: run_def)

lemma run_append: "run c (tr @ tr') = run (run c tr) tr'"
  by (simp add: run_def)

lemma run_reachable: "reachable c \<Longrightarrow> reachable (run c tr)"
  by (induction tr arbitrary: c) (simp_all add: run_def stepped)

lemma run_ticks_idle:
  assumes "timeouts c = []"
  shows "run c (replicate m Tick) = c"
  using assms by (induction m) (simp_all add: run_def tick_idle)

lemma idle_quiet:
  assumes "consistent c" and "draggingBy (state c) = None"
  shows "quiet (animationDuration c) 0 c" and "timeouts c = []"
proof -
  have "draggingIndex (state c) = None" "\<not> dragging (state c)"
    using consistentD(3)[OF assms(1)] assms(2) by (auto simp: session_ok_def)
  moreover from this show "timeouts c = []"
    using assms(1) by (auto simp: consistent_def timeouts_ok_def)
  ultimately show "quiet (animationDuration c) 0 c"
    by (simp add: quiet_def)
qed

lemma unmount_clears:
  assumes "consistent c"
  shows "listeners (unmount c) = []" and "timeouts (unmount c) = []"
proof -
  show "listeners (unmount c) = []"
  proof (cases "draggingBy (state c)")
    case None
    then show ?thesis using assms
      by (simp add: unmount_def consistent_def listeners_ok_def)
  next
    case (Some b)
    then show ?thesis using assms
      by (simp add: unmount_def consistent_def listeners_ok_def listener_defs)
  qed
  show "timeouts (unmount c) = []"
    using assms
    by (auto simp: unmount_def consistent_def timeouts_ok_def clearTimeout_def
        split: option.splits)
qed

lemma session_end:
  assumes "consistent c" and "draggingBy (state c) = Some b"
  shows "\<not> dragging (state (step c (WindowEvent (end_event b) event)))"
    and "draggingIndex (state (step c (WindowEvent (end_event b) event))) = None"
    and "draggingBy (state (step c (WindowEvent (end_event b) event))) = None"
    and "timeouts (step c (WindowEvent (end_event b) event)) = []"
    and "run (step c (WindowEvent (end_event b) event)) (replicate m Tick)
          = step c (WindowEvent (end_event b) event)"
proof -
  let ?c = "step c (WindowEvent (end_event b) event)"
  have s: "state ?c = stop (state c)" and t: "timeouts ?c = []"
    using end_clears(1,2)[OF assms] by blast+
  show "\<not> dragging (state ?c)" "draggingIndex (state ?c) = None"
    "draggingBy (state ?c) = None"
    unfolding s by (simp_all add: stop_def)
  show "timeouts ?c = []" by (rule t)
  show "run ?c (replicate m Tick) = ?c" using t by (rule run_ticks_idle)
qed

subsection \<open>Starting a session\<close>

text \<open>
  C1 (as amended). For a range slider with both thumbs mounted and no thumb active, an
  accepted pointer-down selects the thumb whose bounding-rectangle coordinate (\<open>x\<close> for a
  horizontal slider, \<open>y\<close> for a vertical one) is strictly closer to the pointer's
  coordinate; when the two distances are equal, thumb 1 is selected.
\<close>

theorem thumb_selection:
  assumes "\<not> rejects p refs event"
    and "thumb1Ref refs = Some slider1" and "thumb2Ref refs = Some slider2"
    and "clientPoint event = Inr (cx, cy)"
    and "d1 = \<bar>pointer_coord (vertical p) cx cy - thumb_coord (vertical p) slider1\<bar>"
    and "d2 = \<bar>pointer_coord (vertical p) cx cy - thumb_coord (vertical p) slider2\<bar>"
  shows "(d1 < d2 \<longrightarrow> thumb_after (drag p None refs event s) = Some Thumb0)
       \<and> (d2 < d1 \<longrightarrow> thumb_after (drag p None refs event s) = Some Thumb1)
       \<and> (d1 = d2 \<longrightarrow> thumb_after (drag p None refs event s) = Some Thumb1)"
  using assms
  by (auto simp: drag_defs thumb_after_def pointer_coord_def thumb_coord_def Let_def
      split: option.splits)

text \<open>With the thumbs at \<open>x = 100\<close> and \<open>x = 300\<close>, a pointer-down at \<open>x = 150\<close>
  selects thumb 0.\<close>

theorem thumb_selection_witness:
  "\<not> rejects sample_props sample_refs (mouse_at 150)
   \<and> clientPoint (mouse_at 150) = Inr (150, 10)
   \<and> thumb_after (drag sample_props None sample_refs (mouse_at 150) (idle (RangeValue 25 75)))
       = Some Thumb0"
proof -
  have a: "\<not> rejects sample_props sample_refs (mouse_at 150)"
    by (simp add: rejects_def sample_defs)
  have b: "thumb1Ref sample_refs = Some (element 1 100 0 20 20)"
    and c: "thumb2Ref sample_refs = Some (element 2 300 0 20 20)"
    by (simp_all add: sample_refs_def)
  have d: "clientPoint (mouse_at 150) = Inr (150, 10)"
    by (simp add: clientPoint_def mouse_at_def)
  have e: "(50::real) =
      \<bar>pointer_coord (vertical sample_props) 150 10
        - thumb_coord (vertical sample_props) (element 1 100 0 20 20)\<bar>"
    and f: "(150::real) =
      \<bar>pointer_coord (vertical sample_props) 150 10
        - thumb_coord (vertical sample_props) (element 2 300 0 20 20)\<bar>"
    by (simp_all add: pointer_coord_def thumb_coord_def sample_defs)
  from thumb_selection [OF a b c d e f, of "idle (RangeValue 25 75)"] a d show ?thesis
    by simp
qed

text \<open>The claim as stated sends a pointer at equal distance from both thumbs to thumb 0.
  At \<open>x = 200\<close>, between thumbs at \<open>x = 100\<close> and \<open>x = 300\<close>, the handler selects
  thumb 1.\<close>

theorem thumb_selection_tie_counterexample:
  "\<bar>pointer_coord False 200 10 - thumb_coord False (element 1 100 0 20 20)\<bar>
     = \<bar>pointer_coord False 200 10 - thumb_coord False (element 2 300 0 20 20)\<bar>
   \<and> thumb_after (drag sample_props None sample_refs (mouse_at 200) (idle (RangeValue 25 75)))
       \<noteq> Some Thumb0"
  by (simp add: drag_defs sample_defs thumb_after_def pointer_coord_def thumb_coord_def
      Let_def)

text \<open>
  C3. A candidate event with Alt, Ctrl, Meta or Shift held, or arriving while the
  controller is disabled, or while the track or the first thumb is not mounted, or a mouse
  event whose button is not the primary one, or an event that is neither a mouse nor a
  touch event, makes \<open>drag\<close> return with the state (\<open>dragging\<close>, \<open>draggingIndex\<close>,
  \<open>draggingBy\<close> and the value) as it was and with no effect at all: no \<open>setValue\<close>, no
  \<open>preventDefault\<close>, no \<open>stopPropagation\<close>.
\<close>

theorem drag_rejected_silent:
  assumes "altKey event \<or> ctrlKey event \<or> metaKey event \<or> shiftKey event \<or> disabled p
     \<or> trackRef refs = None \<or> thumb1Ref refs = None
     \<or> (isMouseEvent event \<and> button (pointer event) \<noteq> 0)
     \<or> (\<not> isMouseEvent event \<and> \<not> isTouchEvent event)"
  shows "drag p di refs event s = Inr (s, [])"
  using assms unfolding drag_def rejects_def by simp

theorem drag_rejected_silent_witness:
  "shiftKey ((mouse_at 150)\<lparr>shiftKey := True\<rparr>)
   \<and> drag sample_props None sample_refs ((mouse_at 150)\<lparr>shiftKey := True\<rparr>)
         (idle (RangeValue 25 75))
       = Inr (idle (RangeValue 25 75), [])"
proof -
  have h: "shiftKey ((mouse_at 150)\<lparr>shiftKey := True\<rparr>)"
    by simp
  then have "altKey ((mouse_at 150)\<lparr>shiftKey := True\<rparr>)
     \<or> ctrlKey ((mouse_at 150)\<lparr>shiftKey := True\<rparr>)
     \<or> metaKey ((mouse_at 150)\<lparr>shiftKey := True\<rparr>)
     \<or> shiftKey ((mouse_at 150)\<lparr>shiftKey := True\<rparr>) \<or> disabled sample_props
     \<or> trackRef sample_refs = None \<or> thumb1Ref sample_refs = None
     \<or> (isMouseEvent ((mouse_at 150)\<lparr>shiftKey := True\<rparr>)
          \<and> button (pointer ((mouse_at 150)\<lparr>shiftKey := True\<rparr>)) \<noteq> 0)
     \<or> (\<not> isMouseEvent ((mouse_at 150)\<lparr>shiftKey := True\<rparr>)
          \<and> \<not> isTouchEvent ((mouse_at 150)\<lparr>shiftKey := True\<rparr>))"
    by blast
  from drag_rejected_silent [OF this] h show ?thesis
    by blast
qed

subsection \<open>The listeners on the window\<close>

text \<open>
  C6. In every reachable state of the controller, move and end listeners are attached to
  the window if and only if a modality is active (\<open>draggingBy\<close> is not null); the
  attached listeners are exactly the pair of that modality (\<open>mousemove\<close> and \<open>mouseup\<close>
  for the mouse, \<open>touchmove\<close> and \<open>touchend\<close> for touch), never both pairs; and every
  teardown, the end event of the modality as well as unmounting, detaches exactly what was
  attached and leaves no listener behind.
\<close>

theorem listeners_follow_modality:
  assumes "reachable c"
  shows "(listeners c \<noteq> [] \<longleftrightarrow> draggingBy (state c) \<noteq> None)
    \<and> (draggingBy (state c) = Some b \<longrightarrow>
          listeners c =
            [(move_event b, DragListener (props c) (draggingIndex (state c))),
             (end_event b, StopListener)]
          \<and> listeners (step c (WindowEvent (end_event b) event)) = []
          \<and> draggingBy (state (step c (WindowEvent (end_event b) event))) = None)
    \<and> listeners (unmount c) = []"
proof -
  have k: "consistent c" using assms by (rule reachable_consistent)
  have l: "listeners c = expected_listeners c" using k by (rule consistentD)
  have "listeners c \<noteq> [] \<longleftrightarrow> draggingBy (state c) \<noteq> None"
    unfolding l expected_listeners_def by (cases "draggingBy (state c)") simp_all
  moreover have "draggingBy (state c) = Some b \<longrightarrow>
          listeners c =
            [(move_event b, DragListener (props c) (draggingIndex (state c))),
             (end_event b, StopListener)]
          \<and> listeners (step c (WindowEvent (end_event b) event)) = []
          \<and> draggingBy (state (step c (WindowEvent (end_event b) event))) = None"
    using end_clears[OF k, of b event] l
    by (simp add: expected_listeners_def stop_def del: step.simps)
  moreover have "listeners (unmount c) = []" using k by (rule unmount_clears)
  ultimately show ?thesis by blast
qed

theorem listeners_follow_modality_witness:
  "reachable (step (mount sample_props 2 sample_refs False False (RangeValue 25 75))
      (MouseDown (mouse_at 150)))
   \<and> draggingBy (state (step (mount sample_props 2 sample_refs False False (RangeValue 25 75))
      (MouseDown (mouse_at 150)))) = Some Mouse
   \<and> listeners (step (mount sample_props 2 sample_refs False False (RangeValue 25 75))
      (MouseDown (mouse_at 150)))
      = [(''mousemove'', DragListener sample_props (Some Thumb0)), (''mouseup'', StopListener)]
   \<and> listeners (step (step (mount sample_props 2 sample_refs False False (RangeValue 25 75))
      (MouseDown (mouse_at 150))) (WindowEvent ''mouseup'' (mouse_at 150))) = []
   \<and> listeners (unmount (step (mount sample_props 2 sample_refs False False (RangeValue 25 75))
      (MouseDown (mouse_at 150)))) = []"
proof -
  let ?c = "step (mount sample_props 2 sample_refs False False (RangeValue 25 75))
      (MouseDown (mouse_at 150))"
  have r: "reachable ?c" by (intro reachable.intros)
  have m: "draggingBy (state ?c) = Some Mouse"
    by (simp add: machine_defs drag_defs sample_defs Let_def)
  have p: "props ?c = sample_props" "draggingIndex (state ?c) = Some Thumb0"
    by (simp_all add: machine_defs drag_defs sample_defs Let_def)
  from listeners_follow_modality[OF r, of Mouse "mouse_at 150"] r m p show ?thesis
    by (simp add: move_event_def end_event_def del: step.simps)
qed

subsection \<open>The delay before \<open>dragging\<close>\<close>

text \<open>
  C5. From an idle controller, no trace that takes less than \<open>animationDuration\<close>
  milliseconds (and leaves that delay as it is) sets \<open>dragging\<close>; and when such a trace
  has started a session, the end event of its modality (a pointer-up before the delay has
  passed) ends the session, with \<open>dragging\<close> still unset, \<open>draggingIndex\<close> and
  \<open>draggingBy\<close> null and no timeout pending, so that no passing of time sets \<open>dragging\<close>
  afterwards. At most one timeout is pending at any time, and one is pending only while a
  thumb is active; an idle controller is not changed by the passing of time. In every
  session, whether the delay has passed or not, the end event resets \<open>dragging\<close>,
  \<open>draggingIndex\<close> and \<open>draggingBy\<close> and leaves no timeout pending. A pointer-down that
  starts a session sets \<open>dragging\<close> once at least \<open>animationDuration\<close> milliseconds (and
  at least one) of the session have passed, whatever else happens in the session other
  than its end event, a move event carrying an event of the other modality, a change of
  the delay, or the unmounting of the active second thumb.
\<close>

theorem dragging_follows_delay:
  assumes "reachable c"
  shows "(draggingBy (state c) = None \<and> list_all (keeps_duration (animationDuration c)) tr
            \<and> ticks tr < animationDuration c
          \<longrightarrow> \<not> dragging (state (run c tr)))
    \<and> (draggingBy (state c) = None \<and> list_all (keeps_duration (animationDuration c)) tr1
            \<and> ticks tr1 < animationDuration c \<and> draggingBy (state (run c tr1)) = Some b
          \<longrightarrow> \<not> dragging (state (run c tr1))
              \<and> \<not> dragging (state (run c (tr1 @ [WindowEvent (end_event b) event])))
              \<and> draggingIndex (state (run c (tr1 @ [WindowEvent (end_event b) event]))) = None
              \<and> draggingBy (state (run c (tr1 @ [WindowEvent (end_event b) event]))) = None
              \<and> timeouts (run c (tr1 @ [WindowEvent (end_event b) event])) = []
              \<and> run c (tr1 @ WindowEvent (end_event b) event # replicate m Tick)
                  = run c (tr1 @ [WindowEvent (end_event b) event]))
    \<and> length (timeouts c) \<le> 1
    \<and> (timeouts c \<noteq> [] \<or> dragging (state c) \<longrightarrow> draggingIndex (state c) \<noteq> None)
    \<and> (draggingIndex (state c) = None \<longrightarrow> run c (replicate m Tick) = c)
    \<and> (draggingBy (state c) = Some b
          \<longrightarrow> \<not> dragging (state (step c (WindowEvent (end_event b) event)))
              \<and> draggingIndex (state (step c (WindowEvent (end_event b) event))) = None
              \<and> draggingBy (state (step c (WindowEvent (end_event b) event))) = None
              \<and> timeouts (step c (WindowEvent (end_event b) event)) = []
              \<and> run (step c (WindowEvent (end_event b) event)) (replicate m Tick)
                  = step c (WindowEvent (end_event b) event))
    \<and> (draggingBy (state c) = None \<and> pointer_down e
            \<and> draggingBy (state (step c e)) = Some b
            \<and> draggingIndex (state (step c e)) = Some i
            \<and> list_all (session_event b i) tr'
            \<and> list_all (keeps_duration (animationDuration c)) tr'
            \<and> animationDuration c \<le> ticks tr' \<and> 0 < ticks tr'
          \<longrightarrow> dragging (state (run c (e # tr')))
              \<and> \<not> dragging (state (run c (e # tr' @ [WindowEvent (end_event b) event])))
              \<and> draggingIndex (state (run c (e # tr' @ [WindowEvent (end_event b) event])))
                  = None
              \<and> draggingBy (state (run c (e # tr' @ [WindowEvent (end_event b) event])))
                  = None
              \<and> timeouts (run c (e # tr' @ [WindowEvent (end_event b) event])) = [])"
proof -
  have k: "consistent c" using assms by (rule reachable_consistent)
  have one: "draggingBy (state c) = None \<and> list_all (keeps_duration (animationDuration c)) tr
            \<and> ticks tr < animationDuration c
          \<longrightarrow> \<not> dragging (state (run c tr))" for tr
  proof
    assume a: "draggingBy (state c) = None \<and> list_all (keeps_duration (animationDuration c)) tr
            \<and> ticks tr < animationDuration c"
    then have "quiet (animationDuration c) (0 + ticks tr) (run c tr)"
      using idle_quiet(1)[OF k] by (intro quiet_run) simp_all
    then show "\<not> dragging (state (run c tr))" by (simp add: quiet_def)
  qed
  have two: "draggingBy (state c) = None \<and> list_all (keeps_duration (animationDuration c)) tr1
            \<and> ticks tr1 < animationDuration c \<and> draggingBy (state (run c tr1)) = Some b
          \<longrightarrow> \<not> dragging (state (run c tr1))
              \<and> \<not> dragging (state (run c (tr1 @ [WindowEvent (end_event b) event])))
              \<and> draggingIndex (state (run c (tr1 @ [WindowEvent (end_event b) event]))) = None
              \<and> draggingBy (state (run c (tr1 @ [WindowEvent (end_event b) event]))) = None
              \<and> timeouts (run c (tr1 @ [WindowEvent (end_event b) event])) = []
              \<and> run c (tr1 @ WindowEvent (end_event b) event # replicate m Tick)
                  = run c (tr1 @ [WindowEvent (end_event b) event])"
  proof
    assume a: "draggingBy (state c) = None \<and> list_all (keeps_duration (animationDuration c)) tr1
            \<and> ticks tr1 < animationDuration c \<and> draggingBy (state (run c tr1)) = Some b"
    have k1: "consistent (run c tr1)"
      using assms by (intro reachable_consistent run_reachable)
    have r: "run c (tr1 @ [WindowEvent (end_event b) event])
        = step (run c tr1) (WindowEvent (end_event b) event)"
      "run c (tr1 @ WindowEvent (end_event b) event # replicate m Tick)
        = run (step (run c tr1) (WindowEvent (end_event b) event)) (replicate m Tick)"
      by (simp_all add: run_def)
    show "\<not> dragging (state (run c tr1))
              \<and> \<not> dragging (state (run c (tr1 @ [WindowEvent (end_event b) event])))
              \<and> draggingIndex (state (run c (tr1 @ [WindowEvent (end_event b) event]))) = None
              \<and> draggingBy (state (run c (tr1 @ [WindowEvent (end_event b) event]))) = None
              \<and> timeouts (run c (tr1 @ [WindowEvent (end_event b) event])) = []
              \<and> run c (tr1 @ WindowEvent (end_event b) event # replicate m Tick)
                  = run c (tr1 @ [WindowEvent (end_event b) event])"
      unfolding r using one[of tr1] a session_end(1-4)[OF k1, of b event]
        session_end(5)[OF k1, of b event m] by blast
  qed
  have three: "length (timeouts c) \<le> 1"
    using k by (auto simp: consistent_def timeouts_ok_def)
  have four: "timeouts c \<noteq> [] \<or> dragging (state c) \<longrightarrow> draggingIndex (state c) \<noteq> None"
    using k by (auto simp: consistent_def timeouts_ok_def session_ok_def)
  have five: "draggingIndex (state c) = None \<longrightarrow> run c (replicate m Tick) = c"
    using four by (auto intro: run_ticks_idle)
  have six: "draggingBy (state c) = Some b
          \<longrightarrow> \<not> dragging (state (step c (WindowEvent (end_event b) event)))
              \<and> draggingIndex (state (step c (WindowEvent (end_event b) event))) = None
              \<and> draggingBy (state (step c (WindowEvent (end_event b) event))) = None
              \<and> timeouts (step c (WindowEvent (end_event b) event)) = []
              \<and> run (step c (WindowEvent (end_event b) event)) (replicate m Tick)
                  = step c (WindowEvent (end_event b) event)"
    using session_end(1-4)[OF k, of b event] session_end(5)[OF k, of b event m] by blast
  have seven: "draggingBy (state c) = None \<and> pointer_down e
            \<and> draggingBy (state (step c e)) = Some b
            \<and> draggingIndex (state (step c e)) = Some i
            \<and> list_all (session_event b i) tr'
            \<and> list_all (keeps_duration (animationDuration c)) tr'
            \<and> animationDuration c \<le> ticks tr' \<and> 0 < ticks tr'
          \<longrightarrow> dragging (state (run c (e # tr')))
              \<and> \<not> dragging (state (run c (e # tr' @ [WindowEvent (end_event b) event])))
              \<and> draggingIndex (state (run c (e # tr' @ [WindowEvent (end_event b) event])))
                  = None
              \<and> draggingBy (state (run c (e # tr' @ [WindowEvent (end_event b) event])))
                  = None
              \<and> timeouts (run c (e # tr' @ [WindowEvent (end_event b) event])) = []"
  proof
    assume a: "draggingBy (state c) = None \<and> pointer_down e
            \<and> draggingBy (state (step c e)) = Some b
            \<and> draggingIndex (state (step c e)) = Some i
            \<and> list_all (session_event b i) tr'
            \<and> list_all (keeps_duration (animationDuration c)) tr'
            \<and> animationDuration c \<le> ticks tr' \<and> 0 < ticks tr'"
    then obtain i' where "engaged (animationDuration c) b i' 0 (step c e)"
      using pointer_down_engaged[OF k, of e b] by blast
    moreover from this have "i' = i" using a by (simp add: engaged_def)
    ultimately have "engaged (animationDuration c) b i 0 (step c e)" by simp
    then have g: "engaged (animationDuration c) b i (0 + ticks tr') (run (step c e) tr')"
      using a by (intro engaged_run) simp_all
    then have d: "dragging (state (run c (e # tr')))"
      using a engaged_dragging[OF g] by (simp add: run_Cons)
    have k': "consistent (run c (e # tr'))"
      and b: "draggingBy (state (run c (e # tr'))) = Some b"
      using g by (simp_all add: engaged_def run_Cons)
    have r: "run c (e # tr' @ [WindowEvent (end_event b) event])
        = step (run c (e # tr')) (WindowEvent (end_event b) event)"
      by (simp add: run_def)
    show "dragging (state (run c (e # tr')))
              \<and> \<not> dragging (state (run c (e # tr' @ [WindowEvent (end_event b) event])))
              \<and> draggingIndex (state (run c (e # tr' @ [WindowEvent (end_event b) event])))
                  = None
              \<and> draggingBy (state (run c (e # tr' @ [WindowEvent (end_event b) event])))
                  = None
              \<and> timeouts (run c (e # tr' @ [WindowEvent (end_event b) event])) = []"
      unfolding r using d session_end(1-4)[OF k' b, of event] by blast
  qed
  from one[of tr] two three four five six seven show ?thesis by blast
qed

text \<open>With a delay of 2 ms: a mouse-down, one millisecond and a mouse-up never set
  \<open>dragging\<close> and leave no timeout, also three milliseconds later; a mouse-down followed
  by two milliseconds, with a move and a render with a new value in between, sets
  \<open>dragging\<close>, and the mouse-up resets it.\<close>

theorem dragging_follows_delay_witness:
  "reachable (mount sample_props 2 sample_refs False False (RangeValue 25 75))
   \<and> draggingBy (state (mount sample_props 2 sample_refs False False (RangeValue 25 75))) = None
   \<and> ticks [MouseDown (mouse_at 150), Tick, WindowEvent ''mouseup'' (mouse_at 150)]
        < animationDuration (mount sample_props 2 sample_refs False False (RangeValue 25 75))
   \<and> \<not> dragging (state (run (mount sample_props 2 sample_refs False False (RangeValue 25 75))
        [MouseDown (mouse_at 150), Tick, WindowEvent ''mouseup'' (mouse_at 150)]))
   \<and> draggingBy (state (run (mount sample_props 2 sample_refs False False (RangeValue 25 75))
        [MouseDown (mouse_at 150), Tick])) = Some Mouse
   \<and> timeouts (run (mount sample_props 2 sample_refs False False (RangeValue 25 75))
        [MouseDown (mouse_at 150), Tick]) \<noteq> []
   \<and> timeouts (run (mount sample_props 2 sample_refs False False (RangeValue 25 75))
        [MouseDown (mouse_at 150), Tick, WindowEvent ''mouseup'' (mouse_at 150)]) = []
   \<and> draggingIndex (state (run (mount sample_props 2 sample_refs False False
        (RangeValue 25 75))
        [MouseDown (mouse_at 150), Tick, WindowEvent ''mouseup'' (mouse_at 150)])) = None
   \<and> \<not> dragging (state (run (mount sample_props 2 sample_refs False False (RangeValue 25 75))
        [MouseDown (mouse_at 150), Tick, WindowEvent ''mouseup'' (mouse_at 150),
         Tick, Tick, Tick]))
   \<and> run (mount sample_props 2 sample_refs False False (RangeValue 25 75)) [Tick, Tick, Tick]
        = mount sample_props 2 sample_refs False False (RangeValue 25 75)
   \<and> draggingBy (state (step (mount sample_props 2 sample_refs False False (RangeValue 25 75))
        (MouseDown (mouse_at 150)))) = Some Mouse
   \<and> timeouts (step (mount sample_props 2 sample_refs False False (RangeValue 25 75))
        (MouseDown (mouse_at 150))) \<noteq> []
   \<and> draggingIndex (state (step (mount sample_props 2 sample_refs False False
        (RangeValue 25 75)) (MouseDown (mouse_at 150)))) = Some Thumb0
   \<and> timeouts (step (step (mount sample_props 2 sample_refs False False (RangeValue 25 75))
        (MouseDown (mouse_at 150))) (WindowEvent ''mouseup'' (mouse_at 160))) = []
   \<and> dragging (state (run (mount sample_props 2 sample_refs False False (RangeValue 25 75))
        [MouseDown (mouse_at 150), Tick, WindowEvent ''mousemove'' (mouse_at 160),
         SetControls (RangeValue 40 75), Tick]))
   \<and> \<not> dragging (state (run (mount sample_props 2 sample_refs False False (RangeValue 25 75))
        [MouseDown (mouse_at 150), Tick, WindowEvent ''mousemove'' (mouse_at 160),
         SetControls (RangeValue 40 75), Tick, WindowEvent ''mouseup'' (mouse_at 160)]))"
proof -
  let ?c = "mount sample_props 2 sample_refs False False (RangeValue 25 75)"
  let ?down = "MouseDown (mouse_at 150)"
  let ?quick = "[?down, Tick, WindowEvent ''mouseup'' (mouse_at 150)]"
  let ?short = "[?down, Tick]"
  let ?long = "[Tick, WindowEvent ''mousemove'' (mouse_at 160), SetControls (RangeValue 40 75),
    Tick]"
  have r: "reachable ?c" by (rule mounted)
  have r1: "reachable (step ?c ?down)" by (intro reachable.intros)
  have i: "draggingBy (state ?c) = None" "animationDuration ?c = 2"
    by (simp_all add: mount_def)
  have q: "list_all (keeps_duration (animationDuration ?c)) ?quick"
    "ticks ?quick < animationDuration ?c"
    "list_all (keeps_duration (animationDuration ?c)) ?short"
    "ticks ?short < animationDuration ?c"
    by (simp_all add: mount_def)
  have m: "draggingBy (state (step ?c ?down)) = Some Mouse"
    and x: "draggingIndex (state (step ?c ?down)) = Some Thumb0"
    and t: "timeouts (step ?c ?down) \<noteq> []"
    by (simp_all add: machine_defs drag_defs sample_defs Let_def)
  have sh: "draggingBy (state (run ?c ?short)) = Some Mouse"
    "timeouts (run ?c ?short) \<noteq> []"
    by (simp_all add: machine_defs drag_defs sample_defs Let_def)
  have l: "pointer_down ?down" "list_all (session_event Mouse Thumb0) ?long"
    "list_all (keeps_duration (animationDuration ?c)) ?long"
    "animationDuration ?c \<le> ticks ?long" "0 < ticks ?long"
    by (simp_all add: mount_def move_event_def end_event_def mouse_at_def)
  have n: "draggingIndex (state ?c) = None" "replicate 3 Tick = [Tick, Tick, Tick]"
    by (simp_all add: mount_def numeral_3_eq_3)
  note a = dragging_follows_delay[OF r, where tr = ?quick and ?tr1.0 = ?short and e = ?down
      and b = Mouse and i = Thumb0 and tr' = ?long and event = "mouse_at 150" and m = 3]
  note a' = dragging_follows_delay[OF r, where tr = ?quick and ?tr1.0 = ?short and e = ?down
      and b = Mouse and i = Thumb0 and tr' = ?long and event = "mouse_at 160" and m = 3]
  note b = dragging_follows_delay[OF r1, where tr = "[]" and ?tr1.0 = "[]" and e = Tick
      and b = Mouse and i = Thumb0 and tr' = "[]" and event = "mouse_at 160" and m = 3]
  have "\<not> dragging (state (run ?c ?quick))"
    using a i q by blast
  moreover have "timeouts (run ?c (?short @ [WindowEvent (end_event Mouse) (mouse_at 150)])) = []"
    and "draggingIndex (state (run ?c (?short @ [WindowEvent (end_event Mouse) (mouse_at 150)])))
      = None"
    and "run ?c (?short @ WindowEvent (end_event Mouse) (mouse_at 150) # replicate 3 Tick)
      = run ?c (?short @ [WindowEvent (end_event Mouse) (mouse_at 150)])"
    and "\<not> dragging (state (run ?c (?short @ [WindowEvent (end_event Mouse) (mouse_at 150)])))"
    using a i q sh by blast+
  moreover have "run ?c [Tick, Tick, Tick] = ?c"
    using a n by simp
  moreover have "timeouts (step (step ?c ?down) (WindowEvent (end_event Mouse) (mouse_at 160)))
      = []"
    using b m by blast
  moreover have "dragging (state (run ?c (?down # ?long)))"
    and "\<not> dragging (state (run ?c (?down # ?long
          @ [WindowEvent (end_event Mouse) (mouse_at 160)])))"
    using a' i m x l by blast+
  ultimately show ?thesis using r i q m x t sh n
    by (simp add: end_event_def del: step.simps)
qed

subsection \<open>The active thumb during a session\<close>

text \<open>
  C7. Once a session has an active thumb (\<open>draggingIndex\<close> is not null), a move event of
  that session leaves the same thumb active, wherever the pointer is: the move listener on
  the window is the \<open>drag\<close> that closed over this \<open>draggingIndex\<close>, and with a
  \<open>draggingIndex\<close> that is not null \<open>drag\<close> takes it for its index and does not compare
  distances. (For a slider whose second thumb is not mounted the index is always 0.)
\<close>

theorem active_thumb_kept:
  assumes "reachable c" and "draggingBy (state c) = Some b"
    and "draggingIndex (state c) = Some i"
    and "thumb2Ref (mounted_refs c) = None \<longrightarrow> i = Thumb0"
  shows "draggingIndex (state (step c (WindowEvent (move_event b) event))) = Some i
    \<and> listeners c =
        [(move_event b, DragListener (props c) (Some i)), (end_event b, StopListener)]
    \<and> drag_index vert (Some i) slider1 (Some slider2) cx cy = i"
proof -
  have k: "consistent c" using assms(1) by (rule reachable_consistent)
  have "listeners c = expected_listeners c" using k by (rule consistentD)
  then have "listeners c =
        [(move_event b, DragListener (props c) (Some i)), (end_event b, StopListener)]"
    using assms(2,3) by (simp add: expected_listeners_def)
  moreover have "drag_index vert (Some i) slider1 (Some slider2) cx cy = i"
    by (simp add: drag_index_def)
  ultimately show ?thesis
    using move_keeps_thumb[OF k assms(2,3,4), of event] by blast
qed

theorem active_thumb_kept_witness:
  "reachable (step (mount sample_props 2 sample_refs False False (RangeValue 25 75))
      (MouseDown (mouse_at 150)))
   \<and> draggingBy (state (step (mount sample_props 2 sample_refs False False (RangeValue 25 75))
      (MouseDown (mouse_at 150)))) = Some Mouse
   \<and> draggingIndex (state (step (mount sample_props 2 sample_refs False False (RangeValue 25 75))
      (MouseDown (mouse_at 150)))) = Some Thumb0
   \<and> \<bar>290 - thumb_coord False (element 2 300 0 20 20)\<bar>
        < \<bar>290 - thumb_coord False (element 1 100 0 20 20)\<bar>
   \<and> draggingIndex (state (step (step (mount sample_props 2 sample_refs False False
      (RangeValue 25 75)) (MouseDown (mouse_at 150))) (WindowEvent ''mousemove'' (mouse_at 290))))
      = Some Thumb0"
proof -
  let ?c = "step (mount sample_props 2 sample_refs False False (RangeValue 25 75))
      (MouseDown (mouse_at 150))"
  have r: "reachable ?c" by (intro reachable.intros)
  have m: "draggingBy (state ?c) = Some Mouse"
    and i: "draggingIndex (state ?c) = Some Thumb0"
    and t: "thumb2Ref (mounted_refs ?c) = None \<longrightarrow> Thumb0 = Thumb0"
    by (simp_all add: machine_defs drag_defs sample_defs Let_def)
  from active_thumb_kept[OF r m i t, of "mouse_at 290"] r m i show ?thesis
    by (simp add: move_event_def thumb_coord_def element_def del: step.simps)
qed

subsection \<open>The two thumbs of a range slider\<close>

lemma snappedValue_bounds [simp]:
  "snappedValue (opts\<lparr>minValue := a, maxValue := b\<rparr>) = snappedValue opts"
  by (simp add: snappedValue_def)

lemma clamp_within:
  assumes "lo \<le> hi"
  shows "clamp lo hi v \<in> {lo..hi}"
  using assms by (auto simp: clamp_def)

text \<open>
  C2. For a range slider, an accepted drag event clamps the moved value (the pointer
  position projected on the track and snapped to a step) to the sub-range of the active
  thumb, \<open>[min, thumb2Value]\<close> for thumb 0 and \<open>[thumb1Value, max]\<close> for thumb 1, and
  the pair it hands to \<open>setValue\<close> keeps the other thumb's component as it was. The
  clamped value lies in the sub-range whenever that is not empty.
\<close>

theorem range_drag_clamped:
  assumes "\<not> rejects p refs event" and "trackRef refs = Some track"
    and "clientPoint event = Inr (cx, cy)" and "controls_value s = RangeValue t1 t2"
    and "moved = snappedValue (drag_options p track cx cy)"
    and "res = drag p (draggingIndex s) refs event s"
  shows "(thumb_after res = Some Thumb0 \<or> thumb_after res = Some Thumb1)
    \<and> (thumb_after res = Some Thumb0 \<longrightarrow>
          value_after res = Some (RangeValue (clamp (min_v p) t2 moved) t2)
          \<and> (min_v p \<le> t2 \<longrightarrow> min_v p \<le> clamp (min_v p) t2 moved
                \<and> clamp (min_v p) t2 moved \<le> t2))
    \<and> (thumb_after res = Some Thumb1 \<longrightarrow>
          value_after res = Some (RangeValue t1 (clamp t1 (max_v p) moved))
          \<and> (t1 \<le> max_v p \<longrightarrow> t1 \<le> clamp t1 (max_v p) moved
                \<and> clamp t1 (max_v p) moved \<le> max_v p))"
proof -
  obtain slider1 where s1: "thumb1Ref refs = Some slider1"
    using assms(1) by (auto simp: rejects_def)
  define index where
    "index = drag_index (vertical p) (draggingIndex s) slider1 (thumb2Ref refs) cx cy"
  have t: "thumb_after res = Some index"
    using assms(1,2,3) s1
    by (auto simp: assms(6) drag_def thumb_after_def index_def Let_def)
  have v: "value_after res
      = Some (drag_value p (drag_options p track cx cy) index (RangeValue t1 t2))"
    using assms(1,2,3,4) s1
    by (simp add: assms(6) drag_def value_after_def index_def Let_def)
  have o: "minValue (drag_options p track cx cy) = min_v p"
    "maxValue (drag_options p track cx cy) = max_v p"
    by (simp_all add: drag_options_def Let_def)
  show ?thesis
  proof (cases index)
    case Thumb0
    then show ?thesis using t v clamp_within[of "min_v p" t2 moved]
      by (simp add: drag_value_def getDragValue_def assms(5) Let_def)
  next
    case Thumb1
    then show ?thesis using t v clamp_within[of t1 "max_v p" moved]
      by (simp add: drag_value_def getDragValue_def assms(5) Let_def)
  qed
qed

text \<open>With the thumbs at \<open>(20, 80)\<close> over \<open>[0, 100]\<close>, dragging thumb 0 to a position
  that stands for 90 gives \<open>(80, 80)\<close>, and dragging thumb 1 to one that stands for 10
  gives \<open>(20, 20)\<close>.\<close>

theorem range_drag_clamped_witness:
  "\<not> rejects sample_props sample_refs (mouse_at 360)
   \<and> snappedValue (drag_options sample_props (element 0 0 0 400 20) 360 10) = 90
   \<and> thumb_after (drag sample_props (Some Thumb0) sample_refs (mouse_at 360)
        (dragging_thumb Thumb0 (RangeValue 20 80))) = Some Thumb0
   \<and> value_after (drag sample_props (Some Thumb0) sample_refs (mouse_at 360)
        (dragging_thumb Thumb0 (RangeValue 20 80))) = Some (RangeValue 80 80)
   \<and> thumb_after (drag sample_props (Some Thumb1) sample_refs (mouse_at 40)
        (dragging_thumb Thumb1 (RangeValue 20 80))) = Some Thumb1
   \<and> value_after (drag sample_props (Some Thumb1) sample_refs (mouse_at 40)
        (dragging_thumb Thumb1 (RangeValue 20 80))) = Some (RangeValue 20 20)"
proof -
  let ?s0 = "dragging_thumb Thumb0 (RangeValue 20 80)"
  let ?s1 = "dragging_thumb Thumb1 (RangeValue 20 80)"
  have a: "\<not> rejects sample_props sample_refs (mouse_at 360)"
    "\<not> rejects sample_props sample_refs (mouse_at 40)"
    by (simp_all add: rejects_def sample_defs)
  have b: "trackRef sample_refs = Some (element 0 0 0 400 20)"
    by (simp add: sample_refs_def)
  have c: "clientPoint (mouse_at 360) = Inr (360, 10)" "clientPoint (mouse_at 40) = Inr (40, 10)"
    by (simp_all add: clientPoint_def mouse_at_def)
  have d: "controls_value ?s0 = RangeValue 20 80" "controls_value ?s1 = RangeValue 20 80"
    by (simp_all add: dragging_thumb_def)
  have i: "draggingIndex ?s0 = Some Thumb0" "draggingIndex ?s1 = Some Thumb1"
    by (simp_all add: dragging_thumb_def)
  have m: "snappedValue (drag_options sample_props (element 0 0 0 400 20) 360 10) = 90"
    "snappedValue (drag_options sample_props (element 0 0 0 400 20) 40 10) = 10"
    by (simp_all add: snappedValue_def drag_options_def clamp_def sample_defs Let_def)
  have t: "thumb_after (drag sample_props (Some Thumb0) sample_refs (mouse_at 360) ?s0)
      = Some Thumb0"
    "thumb_after (drag sample_props (Some Thumb1) sample_refs (mouse_at 40) ?s1)
      = Some Thumb1"
    by (simp_all add: drag_defs sample_defs thumb_after_def dragging_thumb_def Let_def)
  have p: "min_v sample_props = 0" "max_v sample_props = 100"
    by (simp_all add: sample_props_def)
  from range_drag_clamped[OF a(1) b c(1) d(1) refl refl] t(1)
  have "value_after (drag sample_props (Some Thumb0) sample_refs (mouse_at 360) ?s0)
      = Some (RangeValue 80 80)"
    by (simp add: i m p clamp_def)
  moreover from range_drag_clamped[OF a(2) b c(2) d(2) refl refl] t(2)
  have "value_after (drag sample_props (Some Thumb1) sample_refs (mouse_at 40) ?s1)
      = Some (RangeValue 20 20)"
    by (simp add: i m p clamp_def)
  ultimately show ?thesis using a m t by simp
qed

subsection \<open>The keyboard\<close>

lemmas key_defs = handleKeyDown_def handleKeyDown_variant_def VALID_KEYS_def
  VALID_KEYS_variant_def

text \<open>
  C4. A key-down with no modifier held, while the controller is enabled, on a recognized
  key makes exactly one stepping call of the value model, after calling \<open>preventDefault\<close>
  and \<open>stopPropagation\<close>: \<open>increment\<close> for ArrowUp and ArrowRight, \<open>decrement\<close> for
  ArrowDown and ArrowLeft, \<open>minimum\<close> for Home, \<open>maximum\<close> for End, \<open>incrementJump\<close> for
  PageUp and \<open>decrementJump\<close> for PageDown, for a range slider with the index of the thumb
  the handler is attached to. On a single-value slider whose value model snaps to \<open>min\<close>
  and \<open>max\<close>, Home and End leave the value at \<open>min\<close> and \<open>max\<close> whatever it was.
\<close>

theorem key_handled:
  assumes "\<not> altKey event" and "\<not> ctrlKey event" and "\<not> metaKey event"
    and "\<not> shiftKey event" and "\<not> dis"
    and "index =
      (if isRangeSlider controls
       then Some (if same_node (Some (currentTarget event)) (thumb2Ref refs)
                  then Thumb1 else Thumb0)
       else None)"
    and "caller = (if onKeyDown then [CallerOnKeyDown event] else [])"
    and "fx = handleKeyDown onKeyDown dis refs controls event"
  shows "(step_of_key (key event) = Some op \<longrightarrow>
            fx = caller @ [PreventDefault, StopPropagation, Step op index])
    \<and> (controls = SingleValue v \<and> key event = ''Home'' \<longrightarrow>
          run_simple (c\<lparr>minimum := snap_minimum p\<rparr>) fx v = min_v p)
    \<and> (controls = SingleValue v \<and> key event = ''End'' \<longrightarrow>
          run_simple (c\<lparr>maximum := snap_maximum p\<rparr>) fx v = max_v p)"
proof -
  have "step_of_key (key event) = Some op \<longrightarrow>
            fx = caller @ [PreventDefault, StopPropagation, Step op index]"
    using assms
    by (auto simp: step_of_key_def key_defs Let_def split: if_splits)
  moreover have "controls = SingleValue v \<and> key event = ''Home'' \<longrightarrow>
          run_simple (c\<lparr>minimum := snap_minimum p\<rparr>) fx v = min_v p"
    using assms by (auto simp: key_defs Let_def snap_minimum_def)
  moreover have "controls = SingleValue v \<and> key event = ''End'' \<longrightarrow>
          run_simple (c\<lparr>maximum := snap_maximum p\<rparr>) fx v = max_v p"
    using assms by (auto simp: key_defs Let_def snap_maximum_def)
  ultimately show ?thesis by blast
qed

text \<open>End and Home on a single-value slider over \<open>[0, 10]\<close> holding 5, and PageUp on the
  second thumb of a range slider.\<close>

theorem key_handled_witness:
  "step_of_key (key (key_press ''End'' 1)) = Some Maximum
   \<and> handleKeyDown True False sample_refs (SingleValue 5) (key_press ''End'' 1)
       = [CallerOnKeyDown (key_press ''End'' 1), PreventDefault, StopPropagation,
          Step Maximum None]
   \<and> run_simple (some_controls\<lparr>maximum := snap_maximum (sample_props\<lparr>max_v := 10\<rparr>)\<rparr>)
        (handleKeyDown True False sample_refs (SingleValue 5) (key_press ''End'' 1)) 5 = 10
   \<and> step_of_key (key (key_press ''Home'' 1)) = Some Minimum
   \<and> handleKeyDown True False sample_refs (SingleValue 5) (key_press ''Home'' 1)
       = [CallerOnKeyDown (key_press ''Home'' 1), PreventDefault, StopPropagation,
          Step Minimum None]
   \<and> run_simple (some_controls\<lparr>minimum := snap_minimum (sample_props\<lparr>max_v := 10\<rparr>)\<rparr>)
        (handleKeyDown True False sample_refs (SingleValue 5) (key_press ''Home'' 1)) 5 = 0
   \<and> step_of_key (key (key_press ''PageUp'' 2)) = Some IncrementJump
   \<and> handleKeyDown False False sample_refs (RangeValue 25 75) (key_press ''PageUp'' 2)
       = [PreventDefault, StopPropagation, Step IncrementJump (Some Thumb1)]"
proof -
  let ?p = "sample_props\<lparr>max_v := 10\<rparr>"
  have m: "\<not> altKey (key_press k n)" "\<not> ctrlKey (key_press k n)"
    "\<not> metaKey (key_press k n)" "\<not> shiftKey (key_press k n)" "\<not> False" for k n
    by (simp_all add: key_press_def)
  have k: "step_of_key (key (key_press ''End'' 1)) = Some Maximum"
    "step_of_key (key (key_press ''Home'' 1)) = Some Minimum"
    "step_of_key (key (key_press ''PageUp'' 2)) = Some IncrementJump"
    "key (key_press ''End'' 1) = ''End''" "key (key_press ''Home'' 1) = ''Home''"
    by (simp_all add: step_of_key_def key_press_def)
  have i: "None = (if isRangeSlider (SingleValue 5)
       then Some (if same_node (Some (currentTarget (key_press k 1))) (thumb2Ref sample_refs)
                  then Thumb1 else Thumb0)
       else None)" for k
    by simp
  have j: "Some Thumb1 = (if isRangeSlider (RangeValue 25 75)
       then Some (if same_node (Some (currentTarget (key_press ''PageUp'' 2)))
                       (thumb2Ref sample_refs)
                  then Thumb1 else Thumb0)
       else None)"
    by (simp add: same_node_def sample_defs)
  have c: "[CallerOnKeyDown (key_press k 1)]
      = (if True then [CallerOnKeyDown (key_press k 1)] else [])"
    "[] = (if False then [CallerOnKeyDown (key_press ''PageUp'' 2)] else [])" for k
    by simp_all
  note e = key_handled[OF m i c(1) refl, where k2 = "''End''" and op = Maximum and v = 5
      and c = some_controls and p = ?p]
  note h = key_handled[OF m i c(1) refl, where k2 = "''Home''" and op = Minimum and v = 5
      and c = some_controls and p = ?p]
  note u = key_handled[OF m j c(2) refl, where op = IncrementJump and v = 5
      and c = some_controls and p = ?p]
  have p: "max_v ?p = 10" "min_v ?p = 0" by (simp_all add: sample_props_def)
  show ?thesis using e h u k p by (simp add: snap_maximum_def snap_minimum_def)
qed

text \<open>
  C8. A key-down on a key that is not recognized, or with a modifier held, or while the
  controller is disabled, makes no call of the value model and calls neither
  \<open>preventDefault\<close> nor \<open>stopPropagation\<close>; all that happens is the call of the caller's
  \<open>onKeyDown\<close>, when there is one, with the event.
\<close>

theorem key_ignored:
  assumes "key event \<notin> set VALID_KEYS \<or> altKey event \<or> ctrlKey event \<or> metaKey event
     \<or> shiftKey event \<or> dis"
  shows "handleKeyDown onKeyDown dis refs controls event
           = (if onKeyDown then [CallerOnKeyDown event] else [])"
  using assms unfolding handleKeyDown_def by auto

theorem key_ignored_witness:
  "key (key_press ''Enter'' 1) \<notin> set VALID_KEYS
   \<and> handleKeyDown True False sample_refs (SingleValue 5) (key_press ''Enter'' 1)
       = [CallerOnKeyDown (key_press ''Enter'' 1)]
   \<and> shiftKey ((key_press ''End'' 1)\<lparr>shiftKey := True\<rparr>)
   \<and> handleKeyDown True False sample_refs (SingleValue 5) ((key_press ''End'' 1)\<lparr>shiftKey := True\<rparr>)
       = [CallerOnKeyDown ((key_press ''End'' 1)\<lparr>shiftKey := True\<rparr>)]
   \<and> handleKeyDown False True sample_refs (SingleValue 5) (key_press ''End'' 1) = []"
proof -
  have a: "key (key_press ''Enter'' 1) \<notin> set VALID_KEYS"
    by (simp add: key_press_def VALID_KEYS_def)
  have b: "shiftKey ((key_press ''End'' 1)\<lparr>shiftKey := True\<rparr>)"
    by simp
  from a have a': "key (key_press ''Enter'' 1) \<notin> set VALID_KEYS
     \<or> altKey (key_press ''Enter'' 1) \<or> ctrlKey (key_press ''Enter'' 1)
     \<or> metaKey (key_press ''Enter'' 1) \<or> shiftKey (key_press ''Enter'' 1) \<or> False"
    by blast
  from b have b': "key ((key_press ''End'' 1)\<lparr>shiftKey := True\<rparr>) \<notin> set VALID_KEYS
     \<or> altKey ((key_press ''End'' 1)\<lparr>shiftKey := True\<rparr>)
     \<or> ctrlKey ((key_press ''End'' 1)\<lparr>shiftKey := True\<rparr>)
     \<or> metaKey ((key_press ''End'' 1)\<lparr>shiftKey := True\<rparr>)
     \<or> shiftKey ((key_press ''End'' 1)\<lparr>shiftKey := True\<rparr>) \<or> False"
    by blast
  have c': "key (key_press ''End'' 1) \<notin> set VALID_KEYS
     \<or> altKey (key_press ''End'' 1) \<or> ctrlKey (key_press ''End'' 1)
     \<or> metaKey (key_press ''End'' 1) \<or> shiftKey (key_press ''End'' 1) \<or> True"
    by blast
  from key_ignored[OF a', of True sample_refs "SingleValue 5"]
    key_ignored[OF b', of True sample_refs "SingleValue 5"]
    key_ignored[OF c', of False sample_refs "SingleValue 5"] a b
  show ?thesis by simp
qed

text \<open>
  C9 (as amended). The keyboard handler of \<open>useSliderControls.ts\<close> and that of the variant
  in \<open>unnamed/part_003\<close> behave alike on every event whose key is neither PageUp nor
  PageDown and, for a range slider, whose \<open>currentTarget\<close> is the second thumb exactly
  when the closest slider element of its target is: the same call of the caller's handler,
  the same \<open>preventDefault\<close> and \<open>stopPropagation\<close>, the same stepping call on the same
  thumb, or nothing.
\<close>

theorem key_variants_agree:
  assumes "key event \<noteq> ''PageUp''" and "key event \<noteq> ''PageDown''"
    and "isRangeSlider controls \<longrightarrow>
      (same_node (Some (currentTarget event)) (thumb2Ref refs)
        \<longleftrightarrow> same_node (closestSlider event) (thumb2Ref refs))"
  shows "handleKeyDown_variant onKeyDown dis refs controls event
           = handleKeyDown onKeyDown dis refs controls event"
  using assms by (auto simp: key_defs Let_def)

theorem key_variants_agree_witness:
  "key (key_press ''End'' 2) \<noteq> ''PageUp'' \<and> key (key_press ''End'' 2) \<noteq> ''PageDown''
   \<and> isRangeSlider (RangeValue 25 75)
   \<and> same_node (Some (currentTarget (key_press ''End'' 2))) (thumb2Ref sample_refs)
   \<and> same_node (closestSlider (key_press ''End'' 2)) (thumb2Ref sample_refs)
   \<and> handleKeyDown_variant False False sample_refs (RangeValue 25 75) (key_press ''End'' 2)
       = [PreventDefault, StopPropagation, Step Maximum (Some Thumb1)]
   \<and> handleKeyDown False False sample_refs (RangeValue 25 75) (key_press ''End'' 2)
       = [PreventDefault, StopPropagation, Step Maximum (Some Thumb1)]"
proof -
  have a: "key (key_press ''End'' 2) \<noteq> ''PageUp''" "key (key_press ''End'' 2) \<noteq> ''PageDown''"
    by (simp_all add: key_press_def)
  have b: "same_node (Some (currentTarget (key_press ''End'' 2))) (thumb2Ref sample_refs)"
    "same_node (closestSlider (key_press ''End'' 2)) (thumb2Ref sample_refs)"
    by (simp_all add: same_node_def sample_defs)
  then have c: "isRangeSlider (RangeValue 25 75) \<longrightarrow>
      (same_node (Some (currentTarget (key_press ''End'' 2))) (thumb2Ref sample_refs)
        \<longleftrightarrow> same_node (closestSlider (key_press ''End'' 2)) (thumb2Ref sample_refs))"
    by simp
  have d: "handleKeyDown False False sample_refs (RangeValue 25 75) (key_press ''End'' 2)
       = [PreventDefault, StopPropagation, Step Maximum (Some Thumb1)]"
    by (simp add: key_defs sample_defs same_node_def)
  from key_variants_agree[OF a c, of False False] a b d show ?thesis by simp
qed

text \<open>The claim as stated has the two handlers behave alike on every event. On PageUp and
  PageDown the first calls \<open>incrementJump\<close> and \<open>decrementJump\<close> and the variant, whose
  \<open>VALID_KEYS\<close> lacks both keys, does nothing; and on an event from the second thumb
  whose target has no enclosing slider element they step different thumbs.\<close>

theorem key_variants_differ_counterexample:
  "handleKeyDown False False sample_refs (SingleValue 5) (key_press ''PageUp'' 1)
     = [PreventDefault, StopPropagation, Step IncrementJump None]
   \<and> handleKeyDown_variant False False sample_refs (SingleValue 5) (key_press ''PageUp'' 1) = []
   \<and> handleKeyDown False False sample_refs (SingleValue 5) (key_press ''PageDown'' 1)
     = [PreventDefault, StopPropagation, Step DecrementJump None]
   \<and> handleKeyDown_variant False False sample_refs (SingleValue 5) (key_press ''PageDown'' 1) = []
   \<and> handleKeyDown False False sample_refs (RangeValue 25 75)
       ((key_press ''End'' 2)\<lparr>closestSlider := None\<rparr>)
     = [PreventDefault, StopPropagation, Step Maximum (Some Thumb1)]
   \<and> handleKeyDown_variant False False sample_refs (RangeValue 25 75)
       ((key_press ''End'' 2)\<lparr>closestSlider := None\<rparr>)
     = [PreventDefault, StopPropagation, Step Maximum (Some Thumb0)]"
  by (simp add: key_defs sample_defs same_node_def)

subsection \<open>The percentages\<close>

text \<open>
  C10. Whatever the value model holds and whatever the state of the drag session, the
  percentage of each thumb in the object the hook returns is
  \<open>((value - min) / (max - min)) * 100\<close>, converted to a string and followed by \<open>%\<close>:
  \<open>thumb1Percentage\<close> for a single-value slider (which has no \<open>thumb2Percentage\<close>), both
  \<open>thumb1Percentage\<close> and \<open>thumb2Percentage\<close> for a range slider.
\<close>

theorem thumb_percentages:
  "thumb1Percentage (render toString p (s\<lparr>controls_value := SingleValue t1\<rparr>))
     = toString ((t1 - min_v p) / (max_v p - min_v p) * 100) @ ''%''
   \<and> thumb2Percentage (render toString p (s\<lparr>controls_value := SingleValue t1\<rparr>)) = None
   \<and> thumb1Percentage (render toString p (s\<lparr>controls_value := RangeValue t1 t2\<rparr>))
     = toString ((t1 - min_v p) / (max_v p - min_v p) * 100) @ ''%''
   \<and> thumb2Percentage (render toString p (s\<lparr>controls_value := RangeValue t1 t2\<rparr>))
     = Some (toString ((t2 - min_v p) / (max_v p - min_v p) * 100) @ ''%'')"
  by (simp add: render_def getPercentage_def)

end
